theory Spec2Isabelle
  imports Complex_Main "HOL-Library.Sublist" "HOL-Library.AList"
begin

section \<open>Strings\<close>

text \<open>
  JavaScript strings are modelled as \<open>string\<close> (lists of bytes). Only ASCII text takes
  part in the decisions modelled below: decimal numbers, the separator \<open>:\<close> and the
  lower-cased failure patterns.
\<close>

definition digit_char :: "nat \<Rightarrow> char" where
  "digit_char n = ''0123456789'' ! (n mod 10)"

text \<open>\<open>String(n)\<close> / template interpolation of a non-negative integer: its decimal digits.\<close>

fun show_nat :: "nat \<Rightarrow> string" where
  "show_nat n = (if n < 10 then [digit_char n] else show_nat (n div 10) @ [digit_char n])"

declare show_nat.simps [simp del]

text \<open>Interpolation of an integer (a chat id may be negative).\<close>

definition show_int :: "int \<Rightarrow> string" where
  "show_int i = (if i < 0 then CHR ''-'' # show_nat (nat (- i)) else show_nat (nat i))"

text \<open>\<open>String.prototype.toLowerCase\<close> on ASCII letters.\<close>

definition lower_char :: "char \<Rightarrow> char" where
  "lower_char c =
     (case map_of (zip ''ABCDEFGHIJKLMNOPQRSTUVWXYZ'' ''abcdefghijklmnopqrstuvwxyz'') c of
        Some l \<Rightarrow> l
      | None \<Rightarrow> c)"

definition toLowerCase :: "string \<Rightarrow> string" where
  "toLowerCase s = map lower_char s"

text \<open>\<open>s.startsWith(p)\<close>.\<close>

fun startsWith :: "string \<Rightarrow> string \<Rightarrow> bool" where
  "startsWith s [] = True"
| "startsWith [] (p # ps) = False"
| "startsWith (c # cs) (p # ps) = (c = p \<and> startsWith cs ps)"

text \<open>
  \<open>s.includes(p)\<close> (the name is reserved in Isabelle, hence the suffix): \<open>p\<close> occurs
  in \<open>s\<close> as a contiguous substring.
\<close>

fun includes_str :: "string \<Rightarrow> string \<Rightarrow> bool" where
  "includes_str [] p = (p = [])"
| "includes_str (c # cs) p = (startsWith (c # cs) p \<or> includes_str cs p)"

text \<open>\<open>args.join(sep)\<close>.\<close>

fun join :: "string \<Rightarrow> string list \<Rightarrow> string" where
  "join sep [] = []"
| "join sep [x] = x"
| "join sep (x # y # ys) = x @ sep @ join sep (y # ys)"

section \<open>The resilient provider (services/provider.js)\<close>

text \<open>
  A thrown value: an object whose \<open>message\<close> property may be absent (the source guards
  every read with \<open>?.\<close> and \<open>||\<close>).
\<close>

datatype error = Error (message: "string option")

text \<open>
  What the promise \<open>fn(provider)\<close> does while \<open>withTimeout\<close> races it against the timer:
  it resolves, it rejects, or it is still pending when the timer fires.
\<close>

datatype 'a outcome = Resolves 'a | Rejects error | Pending

text \<open>
  The fields of a \<open>ResilientProvider\<close>. \<open>providers\<close> is \<open>rpcUrls.map(createProvider)\<close> and
  is never changed, so \<open>providers.length\<close> is \<open>length (rpcUrls this)\<close> and a provider is
  named by its index. Delays and the timeout are in milliseconds.
\<close>

record resilient_provider =
  rpcUrls :: "string list"
  maxRetries :: nat
  timeout :: nat
  retryDelay :: int
  maxRetryDelay :: int
  currentProviderIndex :: nat

text \<open>
  The constructor: \<open>options.x || default\<close> takes the default for a missing option and
  for the falsy number 0.
\<close>

record provider_options =
  opt_maxRetries :: "nat option"
  opt_timeout :: "nat option"
  opt_retryDelay :: "int option"
  opt_maxRetryDelay :: "int option"

definition or_default :: "('a::zero) option \<Rightarrow> 'a \<Rightarrow> 'a" where
  "or_default v d = (case v of None \<Rightarrow> d | Some x \<Rightarrow> if x = 0 then d else x)"

definition default_rpcUrls :: "string list" where
  "default_rpcUrls =
     [''https://api.avax.network/ext/bc/C/rpc'',
      ''https://avalanche-c-chain.publicnode.com'',
      ''https://rpc.ankr.com/avalanche'',
      ''https://1rpc.io/avax/c'']"

definition new_ResilientProvider :: "string list option \<Rightarrow> provider_options \<Rightarrow> resilient_provider" where
  "new_ResilientProvider urls options =
     \<lparr> rpcUrls = (case urls of None \<Rightarrow> default_rpcUrls | Some us \<Rightarrow> us),
       maxRetries = or_default (opt_maxRetries options) 3,
       timeout = or_default (opt_timeout options) 30000,
       retryDelay = or_default (opt_retryDelay options) 1000,
       maxRetryDelay = or_default (opt_maxRetryDelay options) 10000,
       currentProviderIndex = 0 \<rparr>"

text \<open>
  \<open>switchToNextProvider\<close>: the cursor moves cyclically. It is only called while
  another endpoint remains, so the pool is not empty there.
\<close>

definition next_index :: "nat \<Rightarrow> nat \<Rightarrow> nat" where
  "next_index len cursor = (cursor + 1) mod len"

definition switchToNextProvider :: "resilient_provider \<Rightarrow> resilient_provider" where
  "switchToNextProvider this =
     this\<lparr>currentProviderIndex :=
            next_index (length (rpcUrls this)) (currentProviderIndex this)\<rparr>"

definition nonRetryablePatterns :: "string list" where
  "nonRetryablePatterns =
     [''invalid address'', ''invalid argument'', ''missing argument'',
      ''invalid parameters'', ''execution reverted'', ''call exception'']"

definition isNonRetryableError :: "error \<Rightarrow> bool" where
  "isNonRetryableError err =
     (let msg = (case message err of None \<Rightarrow> [] | Some m \<Rightarrow> toLowerCase m)
      in list_ex (\<lambda>pattern. includes_str msg pattern) nonRetryablePatterns)"

text \<open>\<open>withTimeout\<close>: the promise's own result, or the timeout error when the timer wins.\<close>

definition withTimeout :: "'a outcome \<Rightarrow> string \<Rightarrow> error + 'a" where
  "withTimeout promise errorMessage =
     (case promise of
        Resolves v \<Rightarrow> Inr v
      | Rejects e \<Rightarrow> Inl e
      | Pending \<Rightarrow> Inl (Error (Some errorMessage)))"

definition timeout_message :: "resilient_provider \<Rightarrow> string \<Rightarrow> string" where
  "timeout_message this operationName =
     operationName @ '' timeout after '' @ show_nat (timeout this) @ ''ms''"

subsection \<open>Calls in flight together\<close>

text \<open>
  \<open>currentProviderIndex\<close> is a field of the one provider object, and several calls of
  \<open>executeWithRetry\<close> can be in flight on it together (the \<open>Promise.all\<close> of
  \<open>filterActiveRequests\<close>). A call runs alone between two of its \<open>await\<close>s; while it
  waits, the other calls run and write the field. The only writes in the class after
  the constructor are the rotation of \<open>switchToNextProvider\<close> and the reset to 0 on
  success, so what the others do during one \<open>await\<close> is a list of those.
\<close>

datatype interference = OtherRotates | OtherResets

text \<open>The cursor after such writes, in a pool of \<open>len\<close> endpoints.\<close>

fun moved :: "nat \<Rightarrow> interference list \<Rightarrow> nat \<Rightarrow> nat" where
  "moved len [] cursor = cursor"
| "moved len (OtherRotates # acts) cursor = moved len acts (next_index len cursor)"
| "moved len (OtherResets # acts) cursor = moved len acts 0"

definition interfere :: "interference list \<Rightarrow> resilient_provider \<Rightarrow> resilient_provider" where
  "interfere acts this =
     this\<lparr>currentProviderIndex :=
            moved (length (rpcUrls this)) acts (currentProviderIndex this)\<rparr>"

text \<open>
  The two \<open>await\<close>s of \<open>executeWithRetry\<close>, named by the outer iteration
  (\<open>providerAttempt\<close>) and the attempt they belong to: the race of \<open>fn(provider)\<close>
  against the timer, and the backoff sleep. \<open>others\<close> tells what the other calls in
  flight write during each; \<open>undisturbed\<close> is a call that runs with no other in
  flight.
\<close>

datatype await_point = Calling nat nat | Sleeping nat nat

type_synonym others = "await_point \<Rightarrow> interference list"

definition undisturbed :: others where
  "undisturbed pt = []"

subsection \<open>executeWithRetry\<close>

text \<open>
  What one call of \<open>executeWithRetry\<close> does, in order: an invocation of \<open>fn\<close> on a
  provider (with the error it was caught with, if any), a backoff sleep, a rotation
  that sets the cursor to the given index, and the reset of the cursor to the primary.
\<close>

datatype event =
    Attempt nat "error option"
  | Sleep int
  | Switched nat
  | ResetPrimary

text \<open>
  How the inner \<open>for\<close> loop is left: by the \<open>return\<close> of the success path, or by
  falling out of the loop (exhausted or \<open>break\<close>) with the local variables
  \<open>lastError\<close> and \<open>delay\<close>; either way with the value of the shared cursor then.
\<close>

datatype 'a loop_exit =
    Return 'a nat
  | Fallthrough "error option" int nat

text \<open>
  The operation \<open>fn\<close> may be stateful, and with other calls in flight a provider can
  be handed to it in more than one outer iteration; \<open>fn k a p\<close> is the outcome of the
  invocation of outer iteration \<open>k\<close>, attempt \<open>a\<close>, on provider \<open>p\<close>.

  No field but \<open>currentProviderIndex\<close> is written after construction. In the loops
  \<open>this\<close> gives those fields, and \<open>cursor\<close> is the value of \<open>currentProviderIndex\<close> at
  that point: every read of the field in the source is a read of \<open>cursor\<close>, every
  write makes the \<open>cursor\<close> passed on, and every \<open>await\<close> passes on what the others
  made of it.

  The inner loop (\<open>for (attempt = 0; attempt < maxRetries; attempt++)\<close>) of outer
  iteration \<open>k\<close>, entered at \<open>attempt\<close> with the current \<open>delay\<close> and \<open>lastError\<close>.
  \<open>provider\<close> is the local constant read before the loop. The test
  \<open>attempt < maxRetries - 1\<close> is only reached with \<open>maxRetries \<ge> 1\<close>, where the
  subtraction on \<open>nat\<close> is the one of the source.
\<close>

function retry_loop ::
  "resilient_provider \<Rightarrow> string \<Rightarrow> (nat \<Rightarrow> nat \<Rightarrow> nat \<Rightarrow> 'a outcome) \<Rightarrow> others \<Rightarrow> nat \<Rightarrow> nat
     \<Rightarrow> nat \<Rightarrow> int \<Rightarrow> error option \<Rightarrow> nat \<Rightarrow> event list \<times> 'a loop_exit" where
  "retry_loop this operationName fn others k provider attempt delay lastError cursor =
     (if attempt < maxRetries this then
        (let cursor1 = moved (length (rpcUrls this)) (others (Calling k attempt)) cursor in
         case withTimeout (fn k attempt provider) (timeout_message this operationName) of
           Inr result \<Rightarrow>
             (if cursor1 \<noteq> 0
              then ([Attempt provider None, ResetPrimary], Return result 0)
              else ([Attempt provider None], Return result cursor1))
         | Inl err \<Rightarrow>
             (if isNonRetryableError err
              then ([Attempt provider (Some err)], Fallthrough (Some err) delay cursor1)
              else if attempt < maxRetries this - 1
              then (let cursor2 = moved (length (rpcUrls this)) (others (Sleeping k attempt))
                                    cursor1 in
                    case retry_loop this operationName fn others k provider (attempt + 1)
                           (min (delay * 2) (maxRetryDelay this)) (Some err) cursor2 of
                      (tr, ex) \<Rightarrow> (Attempt provider (Some err) # Sleep delay # tr, ex))
              else (case retry_loop this operationName fn others k provider (attempt + 1)
                           delay (Some err) cursor1 of
                      (tr, ex) \<Rightarrow> (Attempt provider (Some err) # tr, ex))))
      else ([], Fallthrough lastError delay cursor))"
  by pat_completeness auto
termination
  by (relation "measure (\<lambda>(this, operationName, fn, others, k, provider, attempt, delay,
        lastError, cursor). maxRetries this - attempt)") auto

declare retry_loop.simps [simp del]

text \<open>The message of the error thrown after the outer loop.\<close>

definition exhausted_message :: "resilient_provider \<Rightarrow> string \<Rightarrow> error option \<Rightarrow> string" where
  "exhausted_message this operationName lastError =
     operationName @ '' failed after trying all '' @ show_nat (length (rpcUrls this))
       @ '' providers: ''
       @ (case lastError of
            None \<Rightarrow> ''Unknown error''
          | Some e \<Rightarrow> (case message e of
                        None \<Rightarrow> ''Unknown error''
                      | Some m \<Rightarrow> if m = [] then ''Unknown error'' else m))"

text \<open>
  The outer loop (\<open>for (providerAttempt = 0; providerAttempt < providers.length; ...)\<close>),
  entered at \<open>providerAttempt\<close>: \<open>getProvider()\<close> reads the cursor as it is then. The
  result is the trace, the value returned or the error thrown, and the cursor at
  that point.
\<close>

function provider_loop ::
  "resilient_provider \<Rightarrow> string \<Rightarrow> (nat \<Rightarrow> nat \<Rightarrow> nat \<Rightarrow> 'a outcome) \<Rightarrow> others \<Rightarrow> nat \<Rightarrow> int
     \<Rightarrow> error option \<Rightarrow> nat \<Rightarrow> event list \<times> (error + 'a) \<times> nat" where
  "provider_loop this operationName fn others providerAttempt delay lastError cursor =
     (if providerAttempt < length (rpcUrls this) then
        (let provider = cursor in
         case retry_loop this operationName fn others providerAttempt provider 0 delay
                lastError cursor of
           (tr, Return result cursor') \<Rightarrow> (tr, Inr result, cursor')
         | (tr, Fallthrough lastError' delay' cursor') \<Rightarrow>
             (if providerAttempt < length (rpcUrls this) - 1
              then (let cursor'' = next_index (length (rpcUrls this)) cursor' in
                    case provider_loop this operationName fn others (providerAttempt + 1)
                           (retryDelay this) lastError' cursor'' of
                      (tr', res) \<Rightarrow> (tr @ Switched cursor'' # tr', res))
              else (case provider_loop this operationName fn others (providerAttempt + 1)
                           delay' lastError' cursor' of
                      (tr', res) \<Rightarrow> (tr @ tr', res))))
      else ([], Inl (Error (Some (exhausted_message this operationName lastError))), cursor))"
  by pat_completeness auto
termination
  by (relation "measure (\<lambda>(this, operationName, fn, others, providerAttempt, delay,
        lastError, cursor). length (rpcUrls this) - providerAttempt)") auto

declare provider_loop.simps [simp del]

text \<open>
  \<open>executeWithRetry\<close>, called on the object as it is at that moment: the trace, how
  the promise settles, and the object when it does.
\<close>

definition executeWithRetry ::
  "resilient_provider \<Rightarrow> string \<Rightarrow> (nat \<Rightarrow> nat \<Rightarrow> nat \<Rightarrow> 'a outcome) \<Rightarrow> others
     \<Rightarrow> event list \<times> (error + 'a) \<times> resilient_provider" where
  "executeWithRetry this operationName fn others =
     (case provider_loop this operationName fn others 0 (retryDelay this) None
             (currentProviderIndex this) of
        (tr, res, cursor) \<Rightarrow> (tr, res, this\<lparr>currentProviderIndex := cursor\<rparr>))"

subsection \<open>Reading a trace\<close>

text \<open>The number of invocations of \<open>fn\<close> in a trace.\<close>

fun is_attempt :: "event \<Rightarrow> bool" where
  "is_attempt (Attempt p e) = True"
| "is_attempt _ = False"

definition invocations :: "event list \<Rightarrow> nat" where
  "invocations tr = length (filter is_attempt tr)"

text \<open>A pool of two endpoints with the settings \<open>ContractService\<close> passes.\<close>

definition two_endpoints :: resilient_provider where
  "two_endpoints =
     \<lparr> rpcUrls = [''https://a.example/rpc'', ''https://b.example/rpc''],
       maxRetries = 3, timeout = 30000, retryDelay = 1000, maxRetryDelay = 10000,
       currentProviderIndex = 0 \<rparr>"





text \<open>The cursor values that the rotations of a trace set, in order.\<close>

fun rotations :: "event list \<Rightarrow> nat list" where
  "rotations [] = []"
| "rotations (Switched q # tr) = q # rotations tr"
| "rotations (Attempt p e # tr) = rotations tr"
| "rotations (Sleep d # tr) = rotations tr"
| "rotations (ResetPrimary # tr) = rotations tr"

text \<open>
  \<open>qs\<close> are the cursor values of successive cyclic rotations in a pool of \<open>n\<close>
  endpoints, starting from the cursor \<open>c\<close>: \<open>(c + 1) mod n, (c + 2) mod n, \<dots>\<close>
\<close>

definition cyclic_from :: "nat \<Rightarrow> nat \<Rightarrow> nat list \<Rightarrow> bool" where
  "cyclic_from c n qs = (qs = map (\<lambda>i. (c + Suc i) mod n) [0..<length qs])"

text \<open>An operation that fails on the primary endpoint and succeeds on every other.\<close>

definition primary_down :: "nat \<Rightarrow> nat \<Rightarrow> nat \<Rightarrow> nat outcome" where
  "primary_down k a p = (if p = 0 then Rejects (Error (Some ''socket hang up'')) else Resolves 42)"


text \<open>An operation that every endpoint answers.\<close>

definition always_answers :: "nat \<Rightarrow> nat \<Rightarrow> nat \<Rightarrow> nat outcome" where
  "always_answers k a p = Resolves 42"

text \<open>
  Another call in flight rotates the cursor while this call waits for its first
  invocation, and does nothing else.
\<close>

definition rotated_during_first_call :: others where
  "rotated_during_first_call pt = (if pt = Calling 0 0 then [OtherRotates] else [])"

section \<open>The contract service (services/contract.js)\<close>

text \<open>
  \<open>callContractMethod\<close>: the contract method, bound to whichever provider is passed
  in, is the operation; \<open>remote k a p\<close> is what the method call does in outer
  iteration \<open>k\<close> at attempt \<open>a\<close> on provider \<open>p\<close>. The arguments are given by
  their renderings.
\<close>

definition callContractMethod ::
  "resilient_provider \<Rightarrow> string \<Rightarrow> string list \<Rightarrow> (nat \<Rightarrow> nat \<Rightarrow> nat \<Rightarrow> 'a outcome) \<Rightarrow> others
     \<Rightarrow> event list \<times> (error + 'a) \<times> resilient_provider" where
  "callContractMethod this methodName args remote others =
     executeWithRetry this (methodName @ ''('' @ join '', '' args @ '')'') remote others"

record contract_service =
  resilientProvider :: resilient_provider
  contractAddress :: string

text \<open>The constructor: \<open>fallbackRpcUrls || [rpcUrl]\<close> and the fixed retry settings.\<close>

definition new_ContractService :: "string \<Rightarrow> string \<Rightarrow> string list option \<Rightarrow> contract_service" where
  "new_ContractService rpcUrl address fallbackRpcUrls =
     \<lparr> resilientProvider =
         new_ResilientProvider
           (Some (case fallbackRpcUrls of None \<Rightarrow> [rpcUrl] | Some urls \<Rightarrow> urls))
           \<lparr> opt_maxRetries = Some 3, opt_timeout = Some 30000,
             opt_retryDelay = Some 1000, opt_maxRetryDelay = Some 10000 \<rparr>,
       contractAddress = address \<rparr>"

text \<open>
  The tuple \<open>getRequestInfo\<close> of the contract returns, as the ABI decodes it (an address
  and six \<open>uint256\<close>), and the object the service makes of it. \<open>Number(x)\<close> is taken as
  exact (the times are far below \<open>2 ^ 53\<close>).
\<close>

record raw_request_info =
  raw_requester :: string
  raw_shares :: nat
  raw_expectedAssets :: nat
  raw_requestTime :: nat
  raw_claimableTime :: nat
  raw_expirationTime :: nat
  raw_allocatedFunds :: nat

record request_info =
  requester :: string
  shares :: string
  expectedAssets :: string
  requestTime :: nat
  claimableTime :: nat
  expirationTime :: nat
  allocatedFunds :: string

text \<open>\<open>ethers.ZeroAddress\<close>.\<close>

definition ZeroAddress :: string where
  "ZeroAddress = ''0x0000000000000000000000000000000000000000''"

text \<open>
  The methods are \<open>async\<close>: the result is the value the promise resolves with (\<open>Inr\<close>)
  or the error it rejects with (\<open>Inl\<close>), and the service with its provider's cursor
  afterwards; \<open>others\<close> is what the other calls in flight do to that cursor
  meanwhile. Each body is one \<open>try\<close> with a \<open>catch\<close> that returns the default.
\<close>

definition getRequestsByOwner ::
  "contract_service \<Rightarrow> (nat \<Rightarrow> nat \<Rightarrow> nat \<Rightarrow> nat list outcome) \<Rightarrow> others \<Rightarrow> string
     \<Rightarrow> (error + string list) \<times> contract_service" where
  "getRequestsByOwner this remote others address =
     (case callContractMethod (resilientProvider this) ''getRequestsByOwner''
             [address, ''0'', ''0''] remote others of
        (tr, Inr requestIds, rp) \<Rightarrow>
          (Inr (map show_nat requestIds), this\<lparr>resilientProvider := rp\<rparr>)
      | (tr, Inl err, rp) \<Rightarrow> (Inr [], this\<lparr>resilientProvider := rp\<rparr>))"

definition canClaimRequest ::
  "contract_service \<Rightarrow> (nat \<Rightarrow> nat \<Rightarrow> nat \<Rightarrow> bool outcome) \<Rightarrow> others \<Rightarrow> string
     \<Rightarrow> (error + bool) \<times> contract_service" where
  "canClaimRequest this remote others requestId =
     (case callContractMethod (resilientProvider this) ''canClaimRequest'' [requestId] remote others of
        (tr, Inr claimable, rp) \<Rightarrow> (Inr claimable, this\<lparr>resilientProvider := rp\<rparr>)
      | (tr, Inl err, rp) \<Rightarrow> (Inr False, this\<lparr>resilientProvider := rp\<rparr>))"

definition getRequestInfo ::
  "contract_service \<Rightarrow> (nat \<Rightarrow> nat \<Rightarrow> nat \<Rightarrow> raw_request_info outcome) \<Rightarrow> others \<Rightarrow> string
     \<Rightarrow> (error + request_info option) \<times> contract_service" where
  "getRequestInfo this remote others requestId =
     (case callContractMethod (resilientProvider this) ''getRequestInfo'' [requestId] remote
             others of
        (tr, Inr raw, rp) \<Rightarrow>
          (Inr (Some \<lparr> requester = raw_requester raw,
                        shares = show_nat (raw_shares raw),
                        expectedAssets = show_nat (raw_expectedAssets raw),
                        requestTime = raw_requestTime raw,
                        claimableTime = raw_claimableTime raw,
                        expirationTime = raw_expirationTime raw,
                        allocatedFunds = show_nat (raw_allocatedFunds raw) \<rparr>),
           this\<lparr>resilientProvider := rp\<rparr>)
      | (tr, Inl err, rp) \<Rightarrow> (Inr None, this\<lparr>resilientProvider := rp\<rparr>))"

text \<open>
  \<open>isRequestInactive\<close> has no \<open>try\<close> of its own: an error of \<open>getRequestInfo\<close> would
  pass through it.
\<close>

definition isRequestInactive ::
  "contract_service \<Rightarrow> (nat \<Rightarrow> nat \<Rightarrow> nat \<Rightarrow> raw_request_info outcome) \<Rightarrow> others \<Rightarrow> string
     \<Rightarrow> (error + bool) \<times> contract_service" where
  "isRequestInactive this remote others requestId =
     (case getRequestInfo this remote others requestId of
        (Inl err, this') \<Rightarrow> (Inl err, this')
      | (Inr None, this') \<Rightarrow> (Inr True, this')
      | (Inr (Some info), this') \<Rightarrow> (Inr (requester info = ZeroAddress), this'))"

text \<open>The call through the resilient provider ended with the error of exhaustion.\<close>

definition fetch_failed :: "event list \<times> (error + 'a) \<times> resilient_provider \<Rightarrow> bool" where
  "fetch_failed r = isl (fst (snd r))"

text \<open>A service on one endpoint, and a remote side that refuses every call.\<close>

definition demo_service :: contract_service where
  "demo_service =
     new_ContractService ''https://a.example/rpc'' ''0x61f908D4992a790A2792D3C36850B4b9eB5849A3'' None"

definition endpoints_down :: "nat \<Rightarrow> nat \<Rightarrow> nat \<Rightarrow> 'a outcome" where
  "endpoints_down k a p = Rejects (Error (Some ''socket hang up''))"

section \<open>The JSON store (services/json-store.js)\<close>

text \<open>
  The data of the store. \<open>subscriptions\<close> is an object keyed by chat id, held here as
  its entries in the order the object enumerates them (every key once);
  \<open>notificationHistory\<close> is keyed by the string
  \<open>`${chatId}:${requestId}`\<close> and \<open>completionStatus\<close> by chat id. Times are
  \<open>Date.now()\<close> readings in milliseconds, passed to each operation that reads the
  clock. Writing the file (\<open>saveData\<close>) changes nothing that is read back here.
\<close>

record subscription =
  walletAddress :: string
  frequencySeconds :: int
  active :: bool
  createdAt :: int
  updatedAt :: int

record notification_record =
  firstNotifiedAt :: int
  lastNotifiedAt :: int

text \<open>The field \<open>updatedAt\<close> of a completion status is \<open>statusUpdatedAt\<close> here.\<close>

record completion_status =
  completionSent :: bool
  lastRequestCount :: nat
  statusUpdatedAt :: int

record store_data =
  subscriptions :: "(int \<times> subscription) list"
  notificationHistory :: "string \<rightharpoonup> notification_record"
  completionStatus :: "int \<rightharpoonup> completion_status"

text \<open>What \<open>loadData\<close> returns when there is no file.\<close>

definition fresh_data :: store_data where
  "fresh_data = \<lparr> subscriptions = [], notificationHistory = Map.empty,
                   completionStatus = Map.empty \<rparr>"

text \<open>
  The order in which an object enumerates its own keys: the array indices (the
  integers from 0 below \<open>2 ^ 32 - 1\<close>) in ascending order, then every other key in
  the order of its creation. \<open>set_property\<close> is the assignment \<open>obj[k] = v\<close> on the
  entries: a key already there keeps its place.
\<close>

definition is_array_index :: "int \<Rightarrow> bool" where
  "is_array_index k = (0 \<le> k \<and> k < 4294967295)"

fun insert_index :: "int \<Rightarrow> 'v \<Rightarrow> (int \<times> 'v) list \<Rightarrow> (int \<times> 'v) list" where
  "insert_index k v [] = [(k, v)]"
| "insert_index k v ((k', v') # entries) =
     (if is_array_index k' \<and> k' < k then (k', v') # insert_index k v entries
      else (k, v) # (k', v') # entries)"

definition set_property :: "int \<Rightarrow> 'v \<Rightarrow> (int \<times> 'v) list \<Rightarrow> (int \<times> 'v) list" where
  "set_property k v entries =
     (if map_of entries k \<noteq> None then AList.update k v entries
      else if is_array_index k then insert_index k v entries
      else entries @ [(k, v)])"

definition subscribe :: "store_data \<Rightarrow> int \<Rightarrow> string \<Rightarrow> int \<Rightarrow> int \<Rightarrow> store_data" where
  "subscribe d chatId wallet frequency now =
     d\<lparr> subscriptions :=
          set_property chatId
            \<lparr> walletAddress = toLowerCase wallet, frequencySeconds = frequency,
              active = True, createdAt = now, updatedAt = now \<rparr>
            (subscriptions d),
        completionStatus := (completionStatus d)(chatId := None) \<rparr>"

definition getChatsForWallet :: "store_data \<Rightarrow> string \<Rightarrow> int list" where
  "getChatsForWallet d wallet =
     map fst (filter (\<lambda>(chatId, sub). active sub \<and> walletAddress sub = toLowerCase wallet)
                (subscriptions d))"

definition history_key :: "int \<Rightarrow> string \<Rightarrow> string" where
  "history_key chatId requestId = show_int chatId @ '':'' @ requestId"

definition shouldNotify :: "store_data \<Rightarrow> int \<Rightarrow> string \<Rightarrow> int \<Rightarrow> bool" where
  "shouldNotify d chatId requestId now =
     (case map_of (subscriptions d) chatId of
        None \<Rightarrow> False
      | Some sub \<Rightarrow>
          (case notificationHistory d (history_key chatId requestId) of
             None \<Rightarrow> True
           | Some history \<Rightarrow>
               (let timeSinceLastNotification = now - lastNotifiedAt history;
                    frequencyMs = frequencySeconds sub * 1000
                in timeSinceLastNotification \<ge> frequencyMs)))"

definition recordNotification :: "store_data \<Rightarrow> int \<Rightarrow> string \<Rightarrow> int \<Rightarrow> store_data" where
  "recordNotification d chatId requestId now =
     (let key = history_key chatId requestId in
      case notificationHistory d key of
        Some existing \<Rightarrow>
          d\<lparr>notificationHistory := (notificationHistory d)(key \<mapsto> existing\<lparr>lastNotifiedAt := now\<rparr>)\<rparr>
      | None \<Rightarrow>
          d\<lparr>notificationHistory :=
              (notificationHistory d)(key \<mapsto> \<lparr>firstNotifiedAt = now, lastNotifiedAt = now\<rparr>)\<rparr>)"

definition cleanupInactiveRequests :: "store_data \<Rightarrow> int \<Rightarrow> string list \<Rightarrow> store_data" where
  "cleanupInactiveRequests d chatId activeRequestIds =
     (let prefix = show_int chatId @ '':'' in
      d\<lparr>notificationHistory :=
          (\<lambda>key. if startsWith key prefix \<and> drop (length prefix) key \<notin> set activeRequestIds
                 then None
                 else notificationHistory d key)\<rparr>)"

definition shouldSendCompletion :: "store_data \<Rightarrow> int \<Rightarrow> nat \<Rightarrow> int \<Rightarrow> bool \<times> store_data" where
  "shouldSendCompletion d chatId requestCount now =
     (let reset = d\<lparr>completionStatus := (completionStatus d)(chatId \<mapsto>
                      \<lparr>completionSent = False, lastRequestCount = requestCount,
                        statusUpdatedAt = now\<rparr>)\<rparr>
      in case completionStatus d chatId of
           None \<Rightarrow> (requestCount = 0, reset)
         | Some status \<Rightarrow>
             if lastRequestCount status = 0 \<and> requestCount > 0 then (requestCount = 0, reset)
             else if requestCount = 0 \<and> \<not> completionSent status then (True, d)
             else if lastRequestCount status \<noteq> requestCount
             then (False,
                   d\<lparr>completionStatus := (completionStatus d)(chatId \<mapsto>
                        status\<lparr>lastRequestCount := requestCount, statusUpdatedAt := now,
                               completionSent := (if requestCount > 0 then False
                                                  else completionSent status)\<rparr>)\<rparr>)
             else (False, d))"

definition markCompletionSent :: "store_data \<Rightarrow> int \<Rightarrow> int \<Rightarrow> store_data" where
  "markCompletionSent d chatId now =
     (let status = (case completionStatus d chatId of
                      None \<Rightarrow> \<lparr>completionSent = False, lastRequestCount = 0, statusUpdatedAt = now\<rparr>
                    | Some st \<Rightarrow> st)
      in d\<lparr>completionStatus := (completionStatus d)(chatId \<mapsto>
             status\<lparr>completionSent := True, statusUpdatedAt := now\<rparr>)\<rparr>)"

text \<open>A store with one chat subscribed at frequency 0, and one at 24 hours.\<close>

definition zero_frequency_store :: store_data where
  "zero_frequency_store = subscribe fresh_data 42 ''0xAbC'' 0 5000"

definition daily_store :: store_data where
  "daily_store = subscribe fresh_data 42 ''0xAbC'' 86400 5000"

text \<open>Three chats on one wallet, subscribed in the order 100, 42, -5.\<close>

definition three_chats_store :: store_data where
  "three_chats_store =
     subscribe (subscribe (subscribe fresh_data 100 ''0xAbC'' 86400 5000)
                  42 ''0xAbC'' 21600 5001)
       (- 5) ''0xAbC'' 43200 5002"

section \<open>The poller (PollerService)\<close>

text \<open>
  The local wall-clock time that \<open>new Date()\<close> reads, by the three getters used:
  minutes 0..59, seconds 0..59, milliseconds 0..999.
\<close>

record wall_clock =
  getMinutes :: int
  getSeconds :: int
  getMilliseconds :: int

text \<open>The remainder operator \<open>%\<close> of JavaScript: the sign follows the dividend.\<close>

definition js_rem :: "int \<Rightarrow> int \<Rightarrow> int" where
  "js_rem a b = sgn a * (\<bar>a\<bar> mod \<bar>b\<bar>)"

definition calculateDelayToNextAlignedTime :: "wall_clock \<Rightarrow> int" where
  "calculateDelayToNextAlignedTime now =
     (let currentMinute = getMinutes now;
          currentSecond = getSeconds now;
          currentMs = getMilliseconds now;
          nextAlignedMinute = \<lceil>real_of_int currentMinute / 15\<rceil> * 15;
          minutesUntilNext = js_rem (nextAlignedMinute - currentMinute) 60;
          delay = (minutesUntilNext * 60 * 1000) - (currentSecond * 1000) - currentMs
      in delay)"

text \<open>The time of the hour in milliseconds, and the 15-minute grid.\<close>

definition ms_of_hour :: "wall_clock \<Rightarrow> int" where
  "ms_of_hour now = getMinutes now * 60000 + getSeconds now * 1000 + getMilliseconds now"

definition on_quarter_hour :: "int \<Rightarrow> bool" where
  "on_quarter_hour ms = (ms mod 900000 = 0)"

text \<open>
  \<open>bot.api.sendMessage\<close> is the messaging collaborator. The text of a message is
  fixed by what it is built from (the wallet and the request ids, or nothing for the
  completion message), so a call is given by those. It answers with the error it
  throws, if any, and with the clock reading when the \<open>await\<close> resumes. Between two
  \<open>await\<close>s the clock is read as one value. The store is taken as written by the
  poller alone while it waits.
\<close>

datatype message = WithdrawalReady string "string list" | AllClaimed

type_synonym messenger = "int \<Rightarrow> message \<Rightarrow> int \<Rightarrow> error option \<times> int"

text \<open>What the poller logs about deliveries.\<close>

datatype notice = Notified int message | FailedToSend int message error

text \<open>
  \<open>sendNotification\<close>: the whole body is one \<open>try\<close>; the result is how the promise
  settles, the log entry and the clock afterwards.
\<close>

definition sendNotification ::
  "messenger \<Rightarrow> int \<Rightarrow> string \<Rightarrow> string list \<Rightarrow> int \<Rightarrow> (error + unit) \<times> notice \<times> int" where
  "sendNotification sendMessage chatId wallet requestIds now =
     (case sendMessage chatId (WithdrawalReady wallet requestIds) now of
        (None, now') \<Rightarrow> (Inr (), Notified chatId (WithdrawalReady wallet requestIds), now')
      | (Some err, now') \<Rightarrow>
          (Inr (), FailedToSend chatId (WithdrawalReady wallet requestIds) err, now'))"

text \<open>The body of the loop of \<open>notifyChatsForWallet\<close> for one chat.\<close>

definition notifyChat ::
  "messenger \<Rightarrow> string \<Rightarrow> string list \<Rightarrow> string list \<Rightarrow> int \<Rightarrow> store_data \<times> int
     \<Rightarrow> (store_data \<times> int) \<times> notice list" where
  "notifyChat sendMessage wallet claimableRequestIds activeRequestIds chatId st =
     (case st of (d, now) \<Rightarrow>
        let d1 = cleanupInactiveRequests d chatId activeRequestIds;
            requestsToNotify = filter (\<lambda>requestId. shouldNotify d1 chatId requestId now)
                                 claimableRequestIds
        in if requestsToNotify = [] then ((d1, now), [])
           else (case sendNotification sendMessage chatId wallet requestsToNotify now of
                   (sent, logged, now') \<Rightarrow>
                     ((fold (\<lambda>requestId d'. recordNotification d' chatId requestId now')
                         requestsToNotify d1, now'),
                      [logged])))"

fun notify_chats ::
  "messenger \<Rightarrow> string \<Rightarrow> string list \<Rightarrow> string list \<Rightarrow> int list \<Rightarrow> store_data \<times> int
     \<Rightarrow> (store_data \<times> int) \<times> notice list" where
  "notify_chats sendMessage wallet claimableIds activeIds [] st = (st, [])"
| "notify_chats sendMessage wallet claimableIds activeIds (chatId # chatIds) st =
     (case notifyChat sendMessage wallet claimableIds activeIds chatId st of
        (st', logged) \<Rightarrow>
          (case notify_chats sendMessage wallet claimableIds activeIds chatIds st' of
             (st'', logged') \<Rightarrow> (st'', logged @ logged')))"

definition notifyChatsForWallet ::
  "messenger \<Rightarrow> string \<Rightarrow> string list \<Rightarrow> string list \<Rightarrow> store_data \<times> int
     \<Rightarrow> (store_data \<times> int) \<times> notice list" where
  "notifyChatsForWallet sendMessage wallet claimableRequestIds activeRequestIds st =
     notify_chats sendMessage wallet claimableRequestIds activeRequestIds
       (getChatsForWallet (fst st) wallet) st"

text \<open>
  The body of the loop of \<open>handleAllRequestsInactive\<close> for one chat; the answer of
  \<open>shouldSendCompletion\<close> is returned with the state.
\<close>

definition completeChat ::
  "messenger \<Rightarrow> int \<Rightarrow> store_data \<times> int \<Rightarrow> (store_data \<times> int) \<times> bool \<times> notice list" where
  "completeChat sendMessage chatId st =
     (case st of (d, now) \<Rightarrow>
        let d1 = cleanupInactiveRequests d chatId [] in
        case shouldSendCompletion d1 chatId 0 now of
          (True, d2) \<Rightarrow>
            (case sendMessage chatId AllClaimed now of
               (None, now') \<Rightarrow>
                 ((markCompletionSent d2 chatId now', now'), True, [Notified chatId AllClaimed])
             | (Some err, now') \<Rightarrow> ((d2, now'), True, [FailedToSend chatId AllClaimed err]))
        | (False, d2) \<Rightarrow> ((d2, now), False, []))"

text \<open>
  What one poll cycle does about completion for one chat of a wallet that has
  requests, by the number of active ones (\<open>checkWallet\<close>): with none the body above,
  otherwise the call \<open>shouldSendCompletion(chatId, activeRequestIds.length)\<close> whose
  answer the poller drops (it is returned here all the same).
\<close>

definition completion_cycle ::
  "messenger \<Rightarrow> int \<Rightarrow> nat \<Rightarrow> store_data \<times> int \<Rightarrow> (store_data \<times> int) \<times> bool" where
  "completion_cycle sendMessage chatId activeCount st =
     (if activeCount = 0
      then (case completeChat sendMessage chatId st of (st', asked, logged) \<Rightarrow> (st', asked))
      else (case shouldSendCompletion (fst st) chatId activeCount (snd st) of
              (asked, d') \<Rightarrow> ((d', snd st), asked)))"

text \<open>
  Successive cycles with the given active counts; \<open>wait\<close> is the time between
  two cycles. The answers of \<open>shouldSendCompletion\<close>, cycle by cycle.
\<close>

fun completion_cycles ::
  "messenger \<Rightarrow> int \<Rightarrow> int \<Rightarrow> nat list \<Rightarrow> store_data \<times> int \<Rightarrow> bool list" where
  "completion_cycles sendMessage chatId wait [] st = []"
| "completion_cycles sendMessage chatId wait (n # ns) st =
     (case completion_cycle sendMessage chatId n st of
        ((d', now'), asked) \<Rightarrow>
          asked # completion_cycles sendMessage chatId wait ns (d', now' + wait))"

text \<open>A messenger that delivers every message, after the given time.\<close>

definition delivers :: "int \<Rightarrow> messenger" where
  "delivers latency chatId msg now = (None, now + latency)"

text \<open>A messenger that fails every call, after the given time.\<close>

definition refuses :: "int \<Rightarrow> messenger" where
  "refuses latency chatId msg now = (Some (Error (Some ''Forbidden: bot was blocked by the user'')), now + latency)"

text \<open>The due request ids of a chat, as the loop body computes them.\<close>

definition requestsToNotify :: "store_data \<Rightarrow> int \<Rightarrow> string list \<Rightarrow> string list \<Rightarrow> int \<Rightarrow> string list" where
  "requestsToNotify d chatId claimableIds activeIds now =
     filter (\<lambda>requestId. shouldNotify (cleanupInactiveRequests d chatId activeIds) chatId requestId now)
       claimableIds"

text \<open>The same messenger, had every message been delivered (same timing).\<close>

definition as_if_delivered :: "messenger \<Rightarrow> messenger" where
  "as_if_delivered sendMessage chatId msg now = (None, snd (sendMessage chatId msg now))"

section \<open>Properties of the resilient provider\<close>

subsection \<open>Substrings\<close>

lemma startsWith_iff_prefix: "startsWith s p \<longleftrightarrow> prefix p s"
  by (induction s p rule: startsWith.induct) auto

lemma includes_str_iff: "includes_str s p \<longleftrightarrow> (\<exists>a b. s = a @ p @ b)"
proof (induction s)
  case Nil
  then show ?case by auto
next
  case (Cons c cs)
  show ?case
  proof
    assume "includes_str (c # cs) p"
    then consider "prefix p (c # cs)" | "includes_str cs p"
      by (auto simp: startsWith_iff_prefix)
    then show "\<exists>a b. c # cs = a @ p @ b"
    proof cases
      case 1
      then obtain b where "c # cs = p @ b" by (auto simp: prefix_def)
      then have "c # cs = [] @ p @ b" by simp
      then show ?thesis by blast
    next
      case 2
      with Cons.IH obtain a b where "cs = a @ p @ b" by blast
      then have "c # cs = (c # a) @ p @ b" by simp
      then show ?thesis by blast
    qed
  next
    assume "\<exists>a b. c # cs = a @ p @ b"
    then obtain a b where ab: "c # cs = a @ p @ b" by blast
    show "includes_str (c # cs) p"
    proof (cases a)
      case Nil
      with ab have "prefix p (c # cs)" by (simp add: prefix_def)
      then show ?thesis by (simp add: startsWith_iff_prefix)
    next
      case (Cons x xs)
      with ab have "cs = xs @ p @ b" by simp
      with Cons.IH have "includes_str cs p" by blast
      then show ?thesis by simp
    qed
  qed
qed

lemma includes_str_Nil: "includes_str s []"
  by (cases s) simp_all

lemma includes_str_append: "includes_str (a @ p @ b) p"
  by (auto simp: includes_str_iff)

subsection \<open>Exhausting every endpoint\<close>

lemma retry_all_fail:
  assumes fails: "\<forall>k a p. \<exists>e. withTimeout (fn k a p) (timeout_message this name) = Inl e
                    \<and> \<not> isNonRetryableError e"
  shows "\<exists>tr le' d' c'. retry_loop this name fn others k p a d le c = (tr, Fallthrough le' d' c')
      \<and> invocations tr = maxRetries this - a
      \<and> (if a < maxRetries this
          then tr \<noteq> [] \<and> (\<exists>e. le' = Some e \<and> last tr = Attempt p (Some e))
          else tr = [] \<and> le' = le)"
proof (induction "maxRetries this - a" arbitrary: a d le c)
  case 0
  then show ?case by (simp add: retry_loop.simps invocations_def)
next
  case (Suc n)
  then have lt: "a < maxRetries this" and n: "n = maxRetries this - (a + 1)" by simp_all
  from fails obtain e where e: "withTimeout (fn k a p) (timeout_message this name) = Inl e"
    "\<not> isNonRetryableError e"
    by blast
  let ?c1 = "moved (length (rpcUrls this)) (others (Calling k a)) c"
  show ?case
  proof (cases "a < maxRetries this - 1")
    case True
    from Suc.hyps(1)[OF n, of "min (d * 2) (maxRetryDelay this)" "Some e"
        "moved (length (rpcUrls this)) (others (Sleeping k a)) ?c1"] True e lt
    show ?thesis
      apply (subst retry_loop.simps)
      apply (auto simp: invocations_def Let_def)
      done
  next
    case False
    from Suc.hyps(1)[OF n, of d "Some e" ?c1] False e lt
    show ?thesis
      apply (subst retry_loop.simps)
      apply (auto simp: invocations_def Let_def)
      done
  qed
qed

lemma provider_all_fail:
  assumes fails: "\<forall>k a p. \<exists>e. withTimeout (fn k a p) (timeout_message this name) = Inl e
                    \<and> \<not> isNonRetryableError e"
    and M: "0 < maxRetries this"
  shows "\<exists>tr le' c'. provider_loop this name fn others k d le c
            = (tr, Inl (Error (Some (exhausted_message this name le'))), c')
      \<and> invocations tr = (length (rpcUrls this) - k) * maxRetries this
      \<and> (if k < length (rpcUrls this)
          then tr \<noteq> [] \<and> (\<exists>e p. le' = Some e \<and> last tr = Attempt p (Some e))
          else tr = [] \<and> le' = le)"
proof (induction "length (rpcUrls this) - k" arbitrary: k d le c)
  case 0
  then show ?case by (simp add: provider_loop.simps invocations_def)
next
  case (Suc n)
  then have lt: "k < length (rpcUrls this)" and n: "n = length (rpcUrls this) - (k + 1)"
    by simp_all
  from retry_all_fail[OF fails, of others k c 0 d le c] M
  obtain tr1 e1 d1 c1 where
    r: "retry_loop this name fn others k c 0 d le c = (tr1, Fallthrough (Some e1) d1 c1)"
    "invocations tr1 = maxRetries this" "tr1 \<noteq> []" "last tr1 = Attempt c (Some e1)"
    by auto
  have ar: "(length (rpcUrls this) - k) * maxRetries this
      = maxRetries this + (length (rpcUrls this) - Suc k) * maxRetries this"
  proof -
    from lt have "length (rpcUrls this) - k = Suc (length (rpcUrls this) - Suc k)"
      by simp
    then show ?thesis by (simp only: mult_Suc)
  qed
  show ?case
  proof (cases "k < length (rpcUrls this) - 1")
    case True
    from Suc.hyps(1)[OF n, of "retryDelay this" "Some e1"
        "next_index (length (rpcUrls this)) c1"] True r lt
    show ?thesis
      apply (subst provider_loop.simps)
      apply (auto simp: invocations_def Let_def ar split: if_splits)
      done
  next
    case False
    from Suc.hyps(1)[OF n, of d1 "Some e1" c1] False r lt
    show ?thesis
      apply (subst provider_loop.simps)
      apply (auto simp: invocations_def Let_def ar)
      done
  qed
qed

text \<open>
  C1. With at least one endpoint and at least one attempt per endpoint, an operation
  whose every invocation fails with a retryable error (a rejection or a timeout) is
  invoked exactly \<open>length (rpcUrls this) * maxRetries this\<close> times; then
  \<open>executeWithRetry\<close> throws an error whose message names the number of providers
  and ends with the message of the last failure caught (\<open>Unknown error\<close> when that
  failure has no message or an empty one). This holds whatever the other calls in
  flight do to the cursor.
\<close>

theorem executeWithRetry_exhausts_all_endpoints:
  assumes N: "1 \<le> length (rpcUrls this)"
    and M: "1 \<le> maxRetries this"
    and fails: "\<forall>k a p. \<exists>e. withTimeout (fn k a p) (timeout_message this operationName) = Inl e
                  \<and> \<not> isNonRetryableError e"
  shows "\<exists>tr p e this'.
      executeWithRetry this operationName fn others =
        (tr,
         Inl (Error (Some (operationName @ '' failed after trying all ''
            @ show_nat (length (rpcUrls this)) @ '' providers: ''
            @ (case message e of None \<Rightarrow> ''Unknown error''
               | Some m \<Rightarrow> if m = [] then ''Unknown error'' else m)))),
         this')
    \<and> invocations tr = length (rpcUrls this) * maxRetries this
    \<and> last tr = Attempt p (Some e)
    \<and> includes_str (exhausted_message this operationName (Some e)) (show_nat (length (rpcUrls this)))
    \<and> includes_str (exhausted_message this operationName (Some e)) (case message e of None \<Rightarrow> [] | Some m \<Rightarrow> m)"
proof -
  from M have M': "0 < maxRetries this" by simp
  from N have lt: "0 < length (rpcUrls this)" by (cases "rpcUrls this") simp_all
  from provider_all_fail[OF fails M', of others 0 "retryDelay this" None "currentProviderIndex this"]
  obtain tr le' c' where
    run': "provider_loop this operationName fn others 0 (retryDelay this) None
             (currentProviderIndex this)
            = (tr, Inl (Error (Some (exhausted_message this operationName le'))), c')"
    and cnt': "invocations tr = (length (rpcUrls this) - 0) * maxRetries this"
    and lst': "if 0 < length (rpcUrls this)
               then tr \<noteq> [] \<and> (\<exists>e p. le' = Some e \<and> last tr = Attempt p (Some e))
               else tr = [] \<and> le' = None"
    by blast
  from lst' lt obtain e p where le': "le' = Some e" and lst: "last tr = Attempt p (Some e)"
    by auto
  from cnt' have cnt: "invocations tr = length (rpcUrls this) * maxRetries this" by simp
  from run' le' have run: "executeWithRetry this operationName fn others
            = (tr, Inl (Error (Some (exhausted_message this operationName (Some e)))),
               this\<lparr>currentProviderIndex := c'\<rparr>)"
    by (simp add: executeWithRetry_def)
  have inc1: "includes_str (exhausted_message this operationName (Some e)) (show_nat (length (rpcUrls this)))"
    unfolding exhausted_message_def
    using includes_str_append[of "operationName @ '' failed after trying all ''" "show_nat (length (rpcUrls this))"]
    by simp
  have inc2: "includes_str (exhausted_message this operationName (Some e)) (case message e of None \<Rightarrow> [] | Some m \<Rightarrow> m)"
  proof (cases "message e")
    case None
    then show ?thesis by (simp add: includes_str_Nil)
  next
    case (Some m)
    show ?thesis
    proof (cases "m = []")
      case True
      with Some show ?thesis by (simp add: includes_str_Nil)
    next
      case False
      have "includes_str ((operationName @ '' failed after trying all ''
         @ show_nat (length (rpcUrls this)) @ '' providers: '') @ m @ []) m"
        by (rule includes_str_append)
      with Some False show ?thesis by (simp add: exhausted_message_def)
    qed
  qed
  from run cnt lst inc1 inc2 show ?thesis
    by (simp add: exhausted_message_def)
qed

lemma timeout_retryable:
  "\<not> isNonRetryableError (Error (Some ''getBlockNumber timeout after 30000ms''))"
  by (simp add: isNonRetryableError_def nonRetryablePatterns_def toLowerCase_def lower_char_def)

lemma show_30000: "show_nat 30000 = ''30000''"
  by (simp add: show_nat.simps digit_char_def)

theorem executeWithRetry_exhausts_all_endpoints_witness:
  "1 \<le> length (rpcUrls two_endpoints) \<and> 1 \<le> maxRetries two_endpoints
   \<and> (\<forall>k a p. \<exists>e. withTimeout (Pending :: nat outcome) (timeout_message two_endpoints ''getBlockNumber'') = Inl e
                  \<and> \<not> isNonRetryableError e)
   \<and> (\<exists>tr p e this'.
      executeWithRetry two_endpoints ''getBlockNumber'' (\<lambda>k a p. Pending :: nat outcome)
          rotated_during_first_call =
        (tr,
         Inl (Error (Some (''getBlockNumber failed after trying all 2 providers: ''
            @ (case message e of None \<Rightarrow> ''Unknown error''
               | Some m \<Rightarrow> if m = [] then ''Unknown error'' else m)))),
         this')
    \<and> invocations tr = 6
    \<and> last tr = Attempt p (Some e))"
proof -
  have N: "1 \<le> length (rpcUrls two_endpoints)" and M: "1 \<le> maxRetries two_endpoints"
    by (simp_all add: two_endpoints_def)
  have fails: "\<forall>k a p. \<exists>e. withTimeout ((\<lambda>k a p. Pending :: nat outcome) k a p) (timeout_message two_endpoints ''getBlockNumber'') = Inl e
                  \<and> \<not> isNonRetryableError e"
    using timeout_retryable
    by (simp add: withTimeout_def timeout_message_def two_endpoints_def show_30000)
  have two: "show_nat (length (rpcUrls two_endpoints)) = ''2''"
    by (simp add: two_endpoints_def show_nat.simps digit_char_def)
  have six: "length (rpcUrls two_endpoints) * maxRetries two_endpoints = 6"
    by (simp add: two_endpoints_def)
  from executeWithRetry_exhausts_all_endpoints[OF N M fails, of rotated_during_first_call]
  obtain tr p e this' where
    run: "executeWithRetry two_endpoints ''getBlockNumber'' (\<lambda>k a p. Pending :: nat outcome)
            rotated_during_first_call =
        (tr,
         Inl (Error (Some (''getBlockNumber'' @ '' failed after trying all ''
            @ show_nat (length (rpcUrls two_endpoints)) @ '' providers: ''
            @ (case message e of None \<Rightarrow> ''Unknown error''
               | Some m \<Rightarrow> if m = [] then ''Unknown error'' else m)))),
         this')"
    and cnt: "invocations tr = length (rpcUrls two_endpoints) * maxRetries two_endpoints"
    and lst: "last tr = Attempt p (Some e)"
    by blast
  have "\<exists>tr p e this'.
      executeWithRetry two_endpoints ''getBlockNumber'' (\<lambda>k a p. Pending :: nat outcome)
          rotated_during_first_call =
        (tr,
         Inl (Error (Some (''getBlockNumber failed after trying all 2 providers: ''
            @ (case message e of None \<Rightarrow> ''Unknown error''
               | Some m \<Rightarrow> if m = [] then ''Unknown error'' else m)))),
         this')
    \<and> invocations tr = 6
    \<and> last tr = Attempt p (Some e)"
    using run cnt lst unfolding two six
    by - (rule exI[of _ tr], rule exI[of _ p], rule exI[of _ e], rule exI[of _ this'], simp)
  with N M fails show ?thesis by simp
qed

subsection \<open>Backoff\<close>









lemma socket_hang_up_retryable:
  "\<not> isNonRetryableError (Error (Some ''socket hang up''))"
  by (simp add: isNonRetryableError_def nonRetryablePatterns_def toLowerCase_def lower_char_def)



subsection \<open>The cursor\<close>

text \<open>A provider built on a pool that is not empty starts with a valid cursor.\<close>

lemma new_ResilientProvider_cursor_valid:
  "urls \<noteq> [] \<Longrightarrow>
     currentProviderIndex (new_ResilientProvider (Some urls) options)
       < length (rpcUrls (new_ResilientProvider (Some urls) options))"
  by (simp add: new_ResilientProvider_def)

text \<open>The writes of the other calls keep the cursor valid.\<close>

lemma next_index_valid: "0 < n \<Longrightarrow> next_index n c < n"
  by (simp add: next_index_def)

lemma moved_valid: "c < n \<Longrightarrow> moved n acts c < n"
proof (induction n acts c rule: moved.induct)
  case (1 len cursor)
  then show ?case by simp
next
  case (2 len acts cursor)
  then have "0 < len" by simp
  with 2 show ?case by (simp add: next_index_valid)
next
  case (3 len acts cursor)
  then have "0 < len" by simp
  with 3 show ?case by simp
qed

lemma moved_undisturbed [simp]: "moved n (undisturbed pt) c = c"
  by (simp add: undisturbed_def)

lemma rotations_append: "rotations (xs @ ys) = rotations xs @ rotations ys"
  by (induction xs rule: rotations.induct) simp_all

lemma retry_loop_cursor:
  "retry_loop this name fn others k p a d le c = (tr, ex) \<Longrightarrow>
     rotations tr = []
     \<and> (case ex of
          Return v c' \<Rightarrow> c' = 0 \<and> count_list tr ResetPrimary \<le> 1
        | Fallthrough le' d' c' \<Rightarrow>
            (c < length (rpcUrls this) \<longrightarrow> c' < length (rpcUrls this))
            \<and> count_list tr ResetPrimary = 0)"
proof (induction "maxRetries this - a" arbitrary: a d le tr ex c)
  case 0
  then show ?case
    by (subst (asm) retry_loop.simps) auto
next
  case (Suc m)
  then have lt: "a < maxRetries this" and m: "m = maxRetries this - (a + 1)" by simp_all
  let ?n = "length (rpcUrls this)"
  let ?c1 = "moved ?n (others (Calling k a)) c"
  let ?c2 = "moved ?n (others (Sleeping k a)) ?c1"
  have v1: "c < ?n \<Longrightarrow> ?c1 < ?n" by (rule moved_valid)
  have v2: "c < ?n \<Longrightarrow> ?c2 < ?n" by (intro moved_valid)
  note unf = Suc.prems(1)[unfolded retry_loop.simps[of this name fn others k p a d le c]]
  show ?case
  proof (cases "withTimeout (fn k a p) (timeout_message this name)")
    case (Inr result)
    with lt unf show ?thesis
      by (auto simp: Let_def split: if_splits)
  next
    case (Inl err)
    show ?thesis
    proof (cases "isNonRetryableError err")
      case True
      with Inl lt unf v1 show ?thesis
        by (auto simp: Let_def)
    next
      case False
      show ?thesis
      proof (cases "a < maxRetries this - 1")
        case True
        obtain tr' ex' where r: "retry_loop this name fn others k p (a + 1)
            (min (d * 2) (maxRetryDelay this)) (Some err) ?c2 = (tr', ex')"
          by (cases "retry_loop this name fn others k p (a + 1)
            (min (d * 2) (maxRetryDelay this)) (Some err) ?c2")
        from unf Inl False True lt r
        have "tr = Attempt p (Some err) # Sleep d # tr'" "ex = ex'"
          by (simp_all add: Let_def)
        with Suc.hyps(1)[OF m r] v2 show ?thesis
          by (auto split: loop_exit.splits)
      next
        case F2: False
        obtain tr' ex' where r: "retry_loop this name fn others k p (a + 1) d (Some err) ?c1
            = (tr', ex')"
          by (cases "retry_loop this name fn others k p (a + 1) d (Some err) ?c1")
        from unf Inl False F2 lt r
        have "tr = Attempt p (Some err) # tr'" "ex = ex'"
          by (simp_all add: Let_def)
        with Suc.hyps(1)[OF m r] v1 show ?thesis
          by (auto split: loop_exit.splits)
      qed
    qed
  qed
qed

text \<open>With no other call in flight the cursor is what this call makes of it.\<close>

lemma retry_loop_cursor_undisturbed:
  "retry_loop this name fn undisturbed k p a d le c = (tr, ex) \<Longrightarrow>
     (case ex of
        Return v c' \<Rightarrow> count_list tr ResetPrimary = (if c = 0 then 0 else 1)
      | Fallthrough le' d' c' \<Rightarrow> c' = c)"
proof (induction "maxRetries this - a" arbitrary: a d le tr ex)
  case 0
  then show ?case
    by (subst (asm) retry_loop.simps) auto
next
  case (Suc m)
  then have lt: "a < maxRetries this" and m: "m = maxRetries this - (a + 1)" by simp_all
  note unf = Suc.prems(1)[unfolded retry_loop.simps[of this name fn undisturbed k p a d le c]]
  show ?case
  proof (cases "withTimeout (fn k a p) (timeout_message this name)")
    case (Inr result)
    with lt unf show ?thesis
      by (auto simp: Let_def split: if_splits)
  next
    case (Inl err)
    show ?thesis
    proof (cases "isNonRetryableError err")
      case True
      with Inl lt unf show ?thesis
        by (auto simp: Let_def)
    next
      case False
      show ?thesis
      proof (cases "a < maxRetries this - 1")
        case True
        obtain tr' ex' where r: "retry_loop this name fn undisturbed k p (a + 1)
            (min (d * 2) (maxRetryDelay this)) (Some err) c = (tr', ex')"
          by (cases "retry_loop this name fn undisturbed k p (a + 1)
            (min (d * 2) (maxRetryDelay this)) (Some err) c")
        from unf Inl False True lt r
        have "tr = Attempt p (Some err) # Sleep d # tr'" "ex = ex'"
          by (simp_all add: Let_def)
        with Suc.hyps(1)[OF m r] show ?thesis
          by (auto split: loop_exit.splits)
      next
        case F2: False
        obtain tr' ex' where r: "retry_loop this name fn undisturbed k p (a + 1) d (Some err) c
            = (tr', ex')"
          by (cases "retry_loop this name fn undisturbed k p (a + 1) d (Some err) c")
        from unf Inl False F2 lt r
        have "tr = Attempt p (Some err) # tr'" "ex = ex'"
          by (simp_all add: Let_def)
        with Suc.hyps(1)[OF m r] show ?thesis
          by (auto split: loop_exit.splits)
      qed
    qed
  qed
qed

lemma retry_loop_first:
  "a < maxRetries this \<Longrightarrow>
     \<exists>e tr'. fst (retry_loop this name fn others k p a d le c) = Attempt p e # tr'"
  by (subst retry_loop.simps) (auto split: sum.splits simp: case_prod_beta Let_def)

lemma provider_loop_first:
  assumes "k < length (rpcUrls this)" and "0 < maxRetries this"
  shows "\<exists>e tr'. fst (provider_loop this name fn others k d le c) = Attempt c e # tr'"
proof -
  from retry_loop_first[OF assms(2), of name fn others k c d le c]
  obtain e tr1 where "fst (retry_loop this name fn others k c 0 d le c) = Attempt c e # tr1"
    by blast
  with assms(1) show ?thesis
    by (subst provider_loop.simps)
       (auto split: prod.splits loop_exit.splits simp: Let_def)
qed

lemma cyclic_from_Nil: "cyclic_from c n []"
  by (simp add: cyclic_from_def)

lemma cyclic_from_Cons:
  assumes "cyclic_from ((c + 1) mod n) n qs"
  shows "cyclic_from c n ((c + 1) mod n # qs)"
proof -
  define l where "l = length qs"
  have step: "((c + 1) mod n + Suc i) mod n = (c + Suc (Suc i)) mod n" for i
  proof -
    have "((c + 1) mod n + Suc i) mod n = ((c + 1) + Suc i) mod n"
      by (rule mod_add_left_eq)
    then show ?thesis by simp
  qed
  from assms have "qs = map (\<lambda>i. ((c + 1) mod n + Suc i) mod n) [0..<l]"
    unfolding cyclic_from_def l_def .
  then have qs: "qs = map (\<lambda>i. (c + Suc (Suc i)) mod n) [0..<l]"
    by (simp only: step)
  have "map (\<lambda>i. (c + Suc i) mod n) [0..<Suc l]
      = (c + 1) mod n # map (\<lambda>i. (c + Suc (Suc i)) mod n) [0..<l]"
    by (simp add: map_upt_Suc del: upt_Suc)
  also have "\<dots> = (c + 1) mod n # qs"
    by (simp only: qs[symmetric])
  finally have fin: "(c + 1) mod n # qs = map (\<lambda>i. (c + Suc i) mod n) [0..<Suc l]"
    by (rule sym)
  have len: "length ((c + 1) mod n # qs) = Suc l"
    by (simp add: l_def)
  show ?thesis
    unfolding cyclic_from_def len using fin .
qed

lemma provider_loop_cursor:
  "provider_loop this name fn others k d le c = (tr, res, c') \<Longrightarrow> c < length (rpcUrls this) \<Longrightarrow>
     c' < length (rpcUrls this)
     \<and> (\<forall>q \<in> set (rotations tr). q < length (rpcUrls this))
     \<and> (case res of
          Inr v \<Rightarrow> c' = 0 \<and> count_list tr ResetPrimary \<le> 1
        | Inl e \<Rightarrow> count_list tr ResetPrimary = 0)"
proof (induction "length (rpcUrls this) - k" arbitrary: k d le tr c)
  case 0
  then show ?case
    by (subst (asm) provider_loop.simps) auto
next
  case (Suc m)
  from Suc.hyps(2) have lt: "k < length (rpcUrls this)" by simp
  let ?n = "length (rpcUrls this)"
  obtain tr1 ex where r: "retry_loop this name fn others k c 0 d le c = (tr1, ex)"
    by (cases "retry_loop this name fn others k c 0 d le c")
  note rc = retry_loop_cursor[OF r]
  from Suc.prems(2) have pos: "0 < ?n" by (cases "rpcUrls this") simp_all
  note unf = Suc.prems(1)[unfolded provider_loop.simps[of this name fn others k d le c]]
  show ?case
  proof (cases ex)
    case (Return v c1)
    with r lt unf have "tr = tr1" "res = Inr v" "c' = c1"
      by (simp_all add: Let_def)
    with rc Return pos show ?thesis
      by simp
  next
    case (Fallthrough le' d' c1)
    with rc Suc.prems(2) have v1: "c1 < ?n" and rot1: "rotations tr1 = []"
      and cnt1: "count_list tr1 ResetPrimary = 0"
      by simp_all
    show ?thesis
    proof (cases "k < ?n - 1")
      case True
      let ?c2 = "next_index ?n c1"
      from pos have v2: "?c2 < ?n" by (rule next_index_valid)
      have m: "m = ?n - (k + 1)" using Suc.hyps(2) by simp
      obtain tr2 where r2: "provider_loop this name fn others (k + 1) (retryDelay this) le' ?c2
            = (tr2, res, c')"
        and tr: "tr = tr1 @ Switched ?c2 # tr2"
        using r Fallthrough lt True unf
        by (auto simp: Let_def split: prod.splits)
      from Suc.hyps(1)[OF m r2 v2] tr rot1 cnt1 v2 show ?thesis
        by (auto simp: rotations_append split: sum.splits)
    next
      case False
      with lt have "\<not> k + 1 < ?n" by simp
      then have e: "provider_loop this name fn others (k + 1) d' le' c1
          = ([], Inl (Error (Some (exhausted_message this name le'))), c1)"
        by (subst provider_loop.simps) simp
      from r Fallthrough lt False e unf
      have "tr = tr1" "res = Inl (Error (Some (exhausted_message this name le')))" "c' = c1"
        by (auto simp: Let_def)
      with rot1 cnt1 v1 show ?thesis
        by simp
    qed
  qed
qed

lemma provider_loop_cursor_undisturbed:
  "provider_loop this name fn undisturbed k d le c = (tr, res, c') \<Longrightarrow>
     cyclic_from c (length (rpcUrls this)) (rotations tr)
     \<and> c' = (case res of Inr v \<Rightarrow> c' | Inl e \<Rightarrow> last (c # rotations tr))
     \<and> count_list tr ResetPrimary =
          (case res of
             Inr v \<Rightarrow> if last (c # rotations tr) = 0 then 0 else 1
           | Inl e \<Rightarrow> count_list tr ResetPrimary)"
proof (induction "length (rpcUrls this) - k" arbitrary: k d le tr c)
  case 0
  then show ?case
    by (subst (asm) provider_loop.simps) (auto simp: cyclic_from_Nil)
next
  case (Suc m)
  from Suc.hyps(2) have lt: "k < length (rpcUrls this)" by simp
  let ?n = "length (rpcUrls this)"
  obtain tr1 ex where r: "retry_loop this name fn undisturbed k c 0 d le c = (tr1, ex)"
    by (cases "retry_loop this name fn undisturbed k c 0 d le c")
  note ru = retry_loop_cursor_undisturbed[OF r]
  note rc = retry_loop_cursor[OF r]
  from rc have rot1: "rotations tr1 = []" by simp
  note unf = Suc.prems(1)[unfolded provider_loop.simps[of this name fn undisturbed k d le c]]
  show ?case
  proof (cases ex)
    case (Return v c1)
    with r lt unf have "tr = tr1" "res = Inr v"
      by (simp_all add: Let_def)
    with ru rot1 Return show ?thesis
      by (simp add: cyclic_from_Nil)
  next
    case (Fallthrough le' d' c1)
    with ru have c1: "c1 = c" by simp
    show ?thesis
    proof (cases "k < ?n - 1")
      case True
      let ?c2 = "(c + 1) mod ?n"
      have m: "m = ?n - (k + 1)" using Suc.hyps(2) by simp
      obtain tr2 where r2: "provider_loop this name fn undisturbed (k + 1) (retryDelay this) le' ?c2
            = (tr2, res, c')"
        and tr: "tr = tr1 @ Switched ?c2 # tr2"
        using r Fallthrough lt True unf c1
        by (auto simp: Let_def next_index_def split: prod.splits)
      note ih = Suc.hyps(1)[OF m r2]
      have rot: "rotations tr = ?c2 # rotations tr2"
        using tr rot1 by (simp add: rotations_append)
      from rc Fallthrough have cnt1: "count_list tr1 ResetPrimary = 0" by simp
      have cnt: "count_list tr ResetPrimary = count_list tr2 ResetPrimary"
        using tr cnt1 by simp
      from ih rot cnt cyclic_from_Cons[of c ?n "rotations tr2"] show ?thesis
        by (simp split: sum.splits)
    next
      case False
      with lt have "\<not> k + 1 < ?n" by simp
      then have e: "provider_loop this name fn undisturbed (k + 1) d' le' c1
          = ([], Inl (Error (Some (exhausted_message this name le'))), c1)"
        by (subst provider_loop.simps) simp
      from r Fallthrough lt False e unf
      have "tr = tr1" "res = Inl (Error (Some (exhausted_message this name le')))" "c' = c1"
        by (auto simp: Let_def)
      with rot1 c1 show ?thesis
        by (simp add: cyclic_from_Nil)
    qed
  qed
qed


lemma executeWithRetry_first:
  assumes "0 < length (rpcUrls this)" and "0 < maxRetries this"
  shows "\<exists>e tr'. fst (executeWithRetry this name fn others)
            = Attempt (currentProviderIndex this) e # tr'"
proof -
  from provider_loop_first[OF assms, of name fn others "retryDelay this" None
      "currentProviderIndex this"]
  show ?thesis
    by (auto simp: executeWithRetry_def case_prod_beta)
qed

text \<open>
  The cursor is one field shared by every call on the object. On two endpoints, a
  call succeeds and leaves the cursor at 0; the rotation of another call still in
  flight then moves it to 1; and the call that follows invokes its operation on
  endpoint 1 first, not on endpoint 0.
\<close>

theorem next_call_after_rotation_counterexample:
  "snd (executeWithRetry two_endpoints ''getBlockNumber'' primary_down undisturbed)
      = (Inr 42, two_endpoints)
   \<and> currentProviderIndex two_endpoints = 0
   \<and> interfere [OtherRotates] two_endpoints = switchToNextProvider two_endpoints
   \<and> currentProviderIndex (interfere [OtherRotates] two_endpoints) = 1
   \<and> fst (executeWithRetry (interfere [OtherRotates] two_endpoints) ''getBlockNumber''
            always_answers undisturbed)
      = [Attempt 1 None, ResetPrimary]"
  by (simp add: executeWithRetry_def two_endpoints_def primary_down_def always_answers_def
      provider_loop.simps retry_loop.simps withTimeout_def socket_hang_up_retryable
      switchToNextProvider_def interfere_def next_index_def undisturbed_def Let_def)

text \<open>
  C3 (amended). Started with a valid cursor, \<open>executeWithRetry\<close> leaves a valid
  cursor, whatever the other calls in flight write to it in the meantime; a rotation
  is cyclic, \<open>(active + 1) mod len\<close>, so every endpoint rotated to is one of the
  pool. When the call succeeds, the cursor is 0 as it returns, through at most one
  reset. With no other call in flight, the rotations of the call visit the pool in
  cyclic order from the cursor it started on, and the reset happens exactly once if
  the cursor was not 0 at the successful invocation (not at all if it was). A call of
  \<open>executeWithRetry\<close> that finds the cursor as the successful call left it invokes
  its operation on endpoint 0 first, whatever happens to the cursor afterwards.
\<close>

theorem cursor_valid_and_reset_on_success:
  assumes valid: "currentProviderIndex this < length (rpcUrls this)"
    and run: "executeWithRetry this operationName fn others = (tr, res, this')"
  shows "currentProviderIndex this' < length (rpcUrls this')
    \<and> (\<forall>t. currentProviderIndex (switchToNextProvider t)
              = (currentProviderIndex t + 1) mod length (rpcUrls t))
    \<and> (\<forall>q \<in> set (rotations tr). q < length (rpcUrls this))
    \<and> (others = undisturbed \<longrightarrow>
          cyclic_from (currentProviderIndex this) (length (rpcUrls this)) (rotations tr))
    \<and> (\<forall>v. res = Inr v \<longrightarrow>
          currentProviderIndex this' = 0
          \<and> count_list tr ResetPrimary \<le> 1
          \<and> (others = undisturbed \<longrightarrow>
                count_list tr ResetPrimary
                  = (if last (currentProviderIndex this # rotations tr) = 0 then 0 else 1)))
    \<and> (\<forall>v operationName' fn' others'. res = Inr v \<and> 0 < maxRetries this \<longrightarrow>
          (\<exists>e tr'. fst (executeWithRetry this' operationName'
                          (fn' :: nat \<Rightarrow> nat \<Rightarrow> nat \<Rightarrow> 'b outcome) others')
                    = Attempt 0 e # tr'))"
proof -
  let ?c = "currentProviderIndex this"
  let ?n = "length (rpcUrls this)"
  obtain c' where pl: "provider_loop this operationName fn others 0 (retryDelay this) None ?c
      = (tr, res, c')" and this': "this' = this\<lparr>currentProviderIndex := c'\<rparr>"
    using run by (auto simp: executeWithRetry_def split: prod.splits)
  note c = provider_loop_cursor[OF pl valid]
  from valid have n: "0 < ?n" by (cases "rpcUrls this") simp_all
  from c this' have v: "currentProviderIndex this' < length (rpcUrls this')"
    by simp
  have rot: "\<forall>t. currentProviderIndex (switchToNextProvider t)
              = (currentProviderIndex t + 1) mod length (rpcUrls t)"
    by (simp add: switchToNextProvider_def next_index_def)
  from c have rots: "\<forall>q \<in> set (rotations tr). q < ?n"
    by simp
  have cyc: "others = undisturbed \<longrightarrow> cyclic_from ?c ?n (rotations tr)"
  proof
    assume u: "others = undisturbed"
    from provider_loop_cursor_undisturbed[OF pl[unfolded u]]
    show "cyclic_from ?c ?n (rotations tr)" by simp
  qed
  have succ: "\<forall>v. res = Inr v \<longrightarrow>
          currentProviderIndex this' = 0
          \<and> count_list tr ResetPrimary \<le> 1
          \<and> (others = undisturbed \<longrightarrow>
                count_list tr ResetPrimary
                  = (if last (?c # rotations tr) = 0 then 0 else 1))"
  proof (intro allI impI conjI)
    fix v assume r: "res = Inr v"
    from c r this' show "currentProviderIndex this' = 0" by simp
    from c r show "count_list tr ResetPrimary \<le> 1" by simp
    assume u: "others = undisturbed"
    from provider_loop_cursor_undisturbed[OF pl[unfolded u]] r
    show "count_list tr ResetPrimary = (if last (?c # rotations tr) = 0 then 0 else 1)"
      by simp
  qed
  have nxt: "\<forall>v operationName' fn' others'. res = Inr v \<and> 0 < maxRetries this \<longrightarrow>
          (\<exists>e tr'. fst (executeWithRetry this' operationName'
                          (fn' :: nat \<Rightarrow> nat \<Rightarrow> nat \<Rightarrow> 'b outcome) others')
                    = Attempt 0 e # tr')"
  proof (intro allI impI)
    fix v operationName' others' and fn' :: "nat \<Rightarrow> nat \<Rightarrow> nat \<Rightarrow> 'b outcome"
    assume a: "res = Inr v \<and> 0 < maxRetries this"
    with c this' have z: "currentProviderIndex this' = 0" by simp
    from n this' have k: "0 < length (rpcUrls this')" by simp
    from a this' have M: "0 < maxRetries this'" by simp
    from executeWithRetry_first[OF k M, of operationName' fn' others'] z
    show "\<exists>e tr'. fst (executeWithRetry this' operationName' fn' others') = Attempt 0 e # tr'"
      by simp
  qed
  from v rot rots cyc succ nxt show ?thesis by blast
qed

lemma primary_down_run:
  "executeWithRetry two_endpoints ''getBlockNumber'' primary_down undisturbed
    = ([Attempt 0 (Some (Error (Some ''socket hang up''))), Sleep 1000,
        Attempt 0 (Some (Error (Some ''socket hang up''))), Sleep 2000,
        Attempt 0 (Some (Error (Some ''socket hang up''))),
        Switched 1, Attempt 1 None, ResetPrimary],
       Inr 42, two_endpoints)"
  by (simp add: executeWithRetry_def two_endpoints_def primary_down_def
      provider_loop.simps retry_loop.simps withTimeout_def socket_hang_up_retryable
      next_index_def undisturbed_def Let_def)

theorem cursor_valid_and_reset_on_success_witness:
  "currentProviderIndex two_endpoints < length (rpcUrls two_endpoints)
   \<and> executeWithRetry two_endpoints ''getBlockNumber'' primary_down undisturbed
    = ([Attempt 0 (Some (Error (Some ''socket hang up''))), Sleep 1000,
        Attempt 0 (Some (Error (Some ''socket hang up''))), Sleep 2000,
        Attempt 0 (Some (Error (Some ''socket hang up''))),
        Switched 1, Attempt 1 None, ResetPrimary],
       Inr 42, two_endpoints)
   \<and> currentProviderIndex two_endpoints = 0
   \<and> cyclic_from 0 2 [1]
   \<and> count_list [Attempt 0 (Some (Error (Some ''socket hang up''))), Sleep 1000,
        Attempt 0 (Some (Error (Some ''socket hang up''))), Sleep 2000,
        Attempt 0 (Some (Error (Some ''socket hang up''))),
        Switched 1, Attempt 1 None, ResetPrimary] ResetPrimary = 1
   \<and> (\<exists>e tr'. fst (executeWithRetry two_endpoints ''getBlockNumber'' primary_down
                      rotated_during_first_call)
                    = Attempt 0 e # tr')"
proof -
  have valid: "currentProviderIndex two_endpoints < length (rpcUrls two_endpoints)"
    by (simp add: two_endpoints_def)
  note t = cursor_valid_and_reset_on_success[OF valid primary_down_run, where 'b = nat]
  from t have a: "currentProviderIndex two_endpoints = 0" by simp
  from t have "cyclic_from (currentProviderIndex two_endpoints)
      (length (rpcUrls two_endpoints))
      (rotations [Attempt 0 (Some (Error (Some ''socket hang up''))), Sleep 1000,
        Attempt 0 (Some (Error (Some ''socket hang up''))), Sleep 2000,
        Attempt 0 (Some (Error (Some ''socket hang up''))),
        Switched 1, Attempt 1 None, ResetPrimary])"
    by blast
  then have cy: "cyclic_from 0 2 [1]"
    by (simp add: two_endpoints_def numeral_2_eq_2)
  from t have b: "count_list [Attempt 0 (Some (Error (Some ''socket hang up''))), Sleep 1000,
        Attempt 0 (Some (Error (Some ''socket hang up''))), Sleep 2000,
        Attempt 0 (Some (Error (Some ''socket hang up''))),
        Switched 1, Attempt 1 None, ResetPrimary] ResetPrimary = 1"
    by (simp add: two_endpoints_def)
  have M: "0 < maxRetries two_endpoints" by (simp add: two_endpoints_def)
  from t M have c: "\<exists>e tr'. fst (executeWithRetry two_endpoints ''getBlockNumber'' primary_down
                      rotated_during_first_call)
                    = Attempt 0 e # tr'"
    by blast
  show ?thesis using valid primary_down_run a cy b c by - (intro conjI, assumption+)
qed

subsection \<open>Non-retryable errors\<close>








section \<open>Properties of the contract service\<close>

text \<open>
  C5. The three queries of the service never reject: each resolves with a value,
  whatever the endpoints do and whatever other calls are in flight. When the call
  through the resilient provider fails in the end, \<open>getRequestsByOwner\<close> resolves with
  the empty list, \<open>canClaimRequest\<close> with \<open>false\<close> and \<open>getRequestInfo\<close> with
  \<open>null\<close>, for every owner address and request id.
\<close>

theorem ledger_queries_absorb_failure:
  "(\<exists>ids. fst (getRequestsByOwner this remoteIds others owner) = Inr ids)
   \<and> (\<exists>b. fst (canClaimRequest this remoteClaim others requestId) = Inr b)
   \<and> (\<exists>info. fst (getRequestInfo this remoteInfo others requestId) = Inr info)
   \<and> (fetch_failed (callContractMethod (resilientProvider this) ''getRequestsByOwner''
          [owner, ''0'', ''0''] remoteIds others)
        \<longrightarrow> fst (getRequestsByOwner this remoteIds others owner) = Inr [])
   \<and> (fetch_failed (callContractMethod (resilientProvider this) ''canClaimRequest''
          [requestId] remoteClaim others)
        \<longrightarrow> fst (canClaimRequest this remoteClaim others requestId) = Inr False)
   \<and> (fetch_failed (callContractMethod (resilientProvider this) ''getRequestInfo''
          [requestId] remoteInfo others)
        \<longrightarrow> fst (getRequestInfo this remoteInfo others requestId) = Inr None)"
  by (auto simp: getRequestsByOwner_def canClaimRequest_def getRequestInfo_def fetch_failed_def
      split: prod.splits sum.splits)

lemma endpoints_down_fails:
  "fetch_failed (callContractMethod (resilientProvider demo_service) methodName args
     endpoints_down undisturbed)"
  by (simp add: fetch_failed_def callContractMethod_def executeWithRetry_def demo_service_def
      new_ContractService_def new_ResilientProvider_def or_default_def endpoints_down_def
      provider_loop.simps retry_loop.simps withTimeout_def socket_hang_up_retryable
      undisturbed_def Let_def)

theorem ledger_queries_absorb_failure_witness:
  "fetch_failed (callContractMethod (resilientProvider demo_service) ''getRequestsByOwner''
          [''0xAbC'', ''0'', ''0''] (endpoints_down :: nat \<Rightarrow> nat \<Rightarrow> nat \<Rightarrow> nat list outcome)
          undisturbed)
   \<and> fst (getRequestsByOwner demo_service endpoints_down undisturbed ''0xAbC'') = Inr []
   \<and> fetch_failed (callContractMethod (resilientProvider demo_service) ''canClaimRequest''
          [''17''] (endpoints_down :: nat \<Rightarrow> nat \<Rightarrow> nat \<Rightarrow> bool outcome) undisturbed)
   \<and> fst (canClaimRequest demo_service endpoints_down undisturbed ''17'') = Inr False
   \<and> fetch_failed (callContractMethod (resilientProvider demo_service) ''getRequestInfo''
          [''17''] (endpoints_down :: nat \<Rightarrow> nat \<Rightarrow> nat \<Rightarrow> raw_request_info outcome)
          undisturbed)
   \<and> fst (getRequestInfo demo_service endpoints_down undisturbed ''17'') = Inr None"
proof -
  have f1: "fetch_failed (callContractMethod (resilientProvider demo_service) ''getRequestsByOwner''
          [''0xAbC'', ''0'', ''0''] (endpoints_down :: nat \<Rightarrow> nat \<Rightarrow> nat \<Rightarrow> nat list outcome)
          undisturbed)"
    by (rule endpoints_down_fails)
  have f2: "fetch_failed (callContractMethod (resilientProvider demo_service) ''canClaimRequest''
          [''17''] (endpoints_down :: nat \<Rightarrow> nat \<Rightarrow> nat \<Rightarrow> bool outcome) undisturbed)"
    by (rule endpoints_down_fails)
  have f3: "fetch_failed (callContractMethod (resilientProvider demo_service) ''getRequestInfo''
          [''17''] (endpoints_down :: nat \<Rightarrow> nat \<Rightarrow> nat \<Rightarrow> raw_request_info outcome)
          undisturbed)"
    by (rule endpoints_down_fails)
  note t = ledger_queries_absorb_failure[of demo_service endpoints_down undisturbed "''0xAbC''"
      endpoints_down "''17''" endpoints_down]
  from t f1 have r1: "fst (getRequestsByOwner demo_service endpoints_down undisturbed ''0xAbC'')
      = Inr []"
    by (elim conjE) (erule mp)
  from t f2 have r2: "fst (canClaimRequest demo_service endpoints_down undisturbed ''17'')
      = Inr False"
    by (elim conjE) (erule mp)
  from t f3 have r3: "fst (getRequestInfo demo_service endpoints_down undisturbed ''17'')
      = Inr None"
    by (elim conjE) (erule mp)
  show ?thesis using f1 r1 f2 r2 f3 r3 by - (intro conjI, assumption+)
qed

text \<open>
  C6. \<open>isRequestInactive\<close> resolves with \<open>true\<close> exactly when the detail is \<open>null\<close>
  or its requester is the zero address, and with \<open>false\<close> otherwise. In terms of the
  remote call: \<open>true\<close> when the fetch failed, and otherwise whether the requester
  fetched is the zero address; so the caller sees the same answer for a failed fetch
  as for a claimed request.
\<close>

theorem isRequestInactive_classification:
  "fst (isRequestInactive this remote others requestId)
     = Inr (fst (getRequestInfo this remote others requestId) = Inr None
            \<or> (\<exists>info. fst (getRequestInfo this remote others requestId) = Inr (Some info)
                  \<and> requester info = ZeroAddress))
   \<and> fst (isRequestInactive this remote others requestId)
     = Inr (case fst (snd (callContractMethod (resilientProvider this) ''getRequestInfo''
                      [requestId] remote others)) of
              Inl err \<Rightarrow> True
            | Inr raw \<Rightarrow> raw_requester raw = ZeroAddress)"
  by (auto simp: isRequestInactive_def getRequestInfo_def split: prod.splits sum.splits option.splits)

section \<open>Properties of the JSON store\<close>

lemma subscriptions_recordNotification:
  "subscriptions (recordNotification d chatId requestId now) = subscriptions d"
  by (simp add: recordNotification_def Let_def split: option.splits)

lemma history_recordNotification_same:
  "\<exists>h. notificationHistory (recordNotification d chatId requestId now) (history_key chatId requestId)
         = Some h \<and> lastNotifiedAt h = now"
  by (simp add: recordNotification_def Let_def split: option.splits)

lemma shouldNotify_after_record:
  "map_of (subscriptions d) chatId = Some sub \<Longrightarrow>
     shouldNotify (recordNotification d chatId requestId t) chatId requestId t'
       \<longleftrightarrow> t' - t \<ge> frequencySeconds sub * 1000"
  using history_recordNotification_same[of d chatId requestId t]
  by (auto simp: shouldNotify_def subscriptions_recordNotification)

text \<open>
  For a chat subscribed with \<open>frequencySeconds = 0\<close>, \<open>shouldNotify\<close> is true at the
  very reading of the clock at which \<open>recordNotification\<close> stored the record.
\<close>

theorem shouldNotify_after_record_counterexample:
  "map_of (subscriptions zero_frequency_store) 42 \<noteq> None
   \<and> shouldNotify (recordNotification zero_frequency_store 42 ''7'' 6000) 42 ''7'' 6000"
  by (simp add: zero_frequency_store_def subscribe_def set_property_def is_array_index_def
      fresh_data_def shouldNotify_def recordNotification_def Let_def)

text \<open>
  C7 (amended). For a subscribed chat and any request id: \<open>shouldNotify\<close> is true
  when there is no record for the pair; after \<open>recordNotification\<close> at time \<open>t\<close> it is
  true at time \<open>t'\<close> exactly when \<open>t' - t\<close> is at least \<open>frequencySeconds * 1000\<close>
  milliseconds; so it is false immediately after \<open>recordNotification\<close> whenever the
  chat's \<open>frequencySeconds\<close> is positive.
\<close>

theorem shouldNotify_dedup_policy:
  assumes "map_of (subscriptions d) chatId = Some sub"
  shows "(notificationHistory d (history_key chatId requestId) = None
            \<longrightarrow> shouldNotify d chatId requestId now)
     \<and> (shouldNotify (recordNotification d chatId requestId t) chatId requestId t'
            \<longleftrightarrow> t' - t \<ge> frequencySeconds sub * 1000)
     \<and> (0 < frequencySeconds sub
            \<longrightarrow> \<not> shouldNotify (recordNotification d chatId requestId t) chatId requestId t)"
proof -
  have a: "notificationHistory d (history_key chatId requestId) = None
            \<longrightarrow> shouldNotify d chatId requestId now"
    using assms by (simp add: shouldNotify_def)
  note b = shouldNotify_after_record[OF assms, of requestId]
  from b[of t t] have c: "0 < frequencySeconds sub
            \<longrightarrow> \<not> shouldNotify (recordNotification d chatId requestId t) chatId requestId t"
    by simp
  from a b[of t t'] c show ?thesis by blast
qed

theorem shouldNotify_dedup_policy_witness:
  "map_of (subscriptions daily_store) 42
     = Some \<lparr>walletAddress = ''0xabc'', frequencySeconds = 86400, active = True,
              createdAt = 5000, updatedAt = 5000\<rparr>
   \<and> notificationHistory daily_store (history_key 42 ''7'') = None
   \<and> shouldNotify daily_store 42 ''7'' 6000
   \<and> \<not> shouldNotify (recordNotification daily_store 42 ''7'' 6000) 42 ''7'' 6000
   \<and> \<not> shouldNotify (recordNotification daily_store 42 ''7'' 6000) 42 ''7'' 86405999
   \<and> shouldNotify (recordNotification daily_store 42 ''7'' 6000) 42 ''7'' 86406000"
proof -
  have sub: "map_of (subscriptions daily_store) 42
     = Some \<lparr>walletAddress = ''0xabc'', frequencySeconds = 86400, active = True,
              createdAt = 5000, updatedAt = 5000\<rparr>"
    by (simp add: daily_store_def subscribe_def set_property_def is_array_index_def
        fresh_data_def toLowerCase_def lower_char_def)
  have none: "notificationHistory daily_store (history_key 42 ''7'') = None"
    by (simp add: daily_store_def subscribe_def set_property_def is_array_index_def
        fresh_data_def)
  note t = shouldNotify_dedup_policy[OF sub, of "''7''"]
  from t[of 6000 0 0] none have a: "shouldNotify daily_store 42 ''7'' 6000" by blast
  from t[of 0 6000 0] have b: "\<not> shouldNotify (recordNotification daily_store 42 ''7'' 6000) 42 ''7'' 6000"
    by simp
  from t[of 0 6000 86405999]
  have c: "\<not> shouldNotify (recordNotification daily_store 42 ''7'' 6000) 42 ''7'' 86405999"
    by simp
  from t[of 0 6000 86406000]
  have e: "shouldNotify (recordNotification daily_store 42 ''7'' 6000) 42 ''7'' 86406000"
    by simp
  show ?thesis using sub none a b c e by - (intro conjI, assumption+)
qed

subsection \<open>The keys of the notification history\<close>

lemma digit_char_set: "digit_char n \<in> set ''0123456789''"
  unfolding digit_char_def by (rule nth_mem) simp

lemma digit_char_inj: "digit_char a = digit_char b \<Longrightarrow> a mod 10 = b mod 10"
proof -
  assume e: "digit_char a = digit_char b"
  have d: "distinct ''0123456789''" by simp
  have la: "a mod 10 < length ''0123456789''" and lb: "b mod 10 < length ''0123456789''"
    by simp_all
  from e nth_eq_iff_index_eq[OF d la lb] show ?thesis
    by (simp only: digit_char_def)
qed

lemma show_nat_chars: "set (show_nat n) \<subseteq> set ''0123456789''"
proof (induction n rule: show_nat.induct)
  case (1 n)
  show ?case
  proof (cases "n < 10")
    case True
    with digit_char_set[of n] show ?thesis
      by (subst show_nat.simps) simp
  next
    case False
    with 1 digit_char_set[of n] show ?thesis
      by (subst show_nat.simps) simp
  qed
qed

lemma show_nat_not_empty: "show_nat n \<noteq> []"
  by (subst show_nat.simps) simp

lemma show_nat_inj: "show_nat a = show_nat b \<Longrightarrow> a = b"
proof (induction a arbitrary: b rule: show_nat.induct)
  case (1 a)
  note e = 1(2)[unfolded show_nat.simps[of a] show_nat.simps[of b]]
  show ?case
  proof (cases "a < 10")
    case a: True
    show ?thesis
    proof (cases "b < 10")
      case True
      with a e have "digit_char a = digit_char b" by simp
      from digit_char_inj[OF this] a True show ?thesis by simp
    next
      case False
      with a e show_nat_not_empty[of "b div 10"] show ?thesis by simp
    qed
  next
    case a: False
    show ?thesis
    proof (cases "b < 10")
      case True
      with a e show_nat_not_empty[of "a div 10"] show ?thesis by simp
    next
      case False
      with a e have s: "show_nat (a div 10) = show_nat (b div 10)"
        and d: "digit_char a = digit_char b"
        by simp_all
      from 1(1)[OF a s] have q: "a div 10 = b div 10" .
      from digit_char_inj[OF d] have r: "a mod 10 = b mod 10" .
      have "a = 10 * (a div 10) + a mod 10" by simp
      also have "\<dots> = 10 * (b div 10) + b mod 10" by (simp only: q r)
      also have "\<dots> = b" by simp
      finally show ?thesis .
    qed
  qed
qed

lemma show_nat_no_colon: "CHR '':'' \<notin> set (show_nat n)"
proof -
  have "CHR '':'' \<notin> set ''0123456789''" by simp
  with show_nat_chars[of n] show ?thesis by blast
qed

lemma show_nat_no_minus: "CHR ''-'' \<notin> set (show_nat n)"
proof -
  have "CHR ''-'' \<notin> set ''0123456789''" by simp
  with show_nat_chars[of n] show ?thesis by blast
qed

lemma show_int_no_colon: "CHR '':'' \<notin> set (show_int i)"
  by (simp add: show_int_def show_nat_no_colon)

lemma show_int_inj: "show_int i = show_int j \<Longrightarrow> i = j"
proof -
  assume e: "show_int i = show_int j"
  show ?thesis
  proof (cases "i < 0")
    case i: True
    show ?thesis
    proof (cases "j < 0")
      case True
      with i e have "show_nat (nat (- i)) = show_nat (nat (- j))"
        by (simp add: show_int_def)
      from show_nat_inj[OF this] i True show ?thesis by simp
    next
      case False
      with i e have "CHR ''-'' # show_nat (nat (- i)) = show_nat (nat j)"
        by (simp add: show_int_def)
      then have "CHR ''-'' \<in> set (show_nat (nat j))"
        by (metis list.set_intros(1))
      with show_nat_no_minus show ?thesis by blast
    qed
  next
    case i: False
    show ?thesis
    proof (cases "j < 0")
      case True
      with i e have "show_nat (nat i) = CHR ''-'' # show_nat (nat (- j))"
        by (simp add: show_int_def)
      then have "CHR ''-'' \<in> set (show_nat (nat i))"
        by (metis list.set_intros(1))
      with show_nat_no_minus show ?thesis by blast
    next
      case False
      with i e have "show_nat (nat i) = show_nat (nat j)"
        by (simp add: show_int_def)
      from show_nat_inj[OF this] i False show ?thesis by simp
    qed
  qed
qed

lemma split_at_separator:
  "x \<notin> set a \<Longrightarrow> x \<notin> set b \<Longrightarrow> a @ x # u = b @ x # v \<Longrightarrow> a = b"
proof (induction a arbitrary: b)
  case Nil
  then show ?case by (cases b) auto
next
  case (Cons y ys)
  then show ?case by (cases b) auto
qed

lemma history_key_chat: "history_key c r = history_key c2 r2 \<Longrightarrow> c = c2"
proof -
  assume "history_key c r = history_key c2 r2"
  then have "show_int c @ CHR '':'' # r = show_int c2 @ CHR '':'' # r2"
    by (simp add: history_key_def)
  from split_at_separator[OF show_int_no_colon show_int_no_colon this]
  show ?thesis by (rule show_int_inj)
qed

lemma history_key_other_prefix:
  assumes "c2 \<noteq> c"
  shows "\<not> startsWith (history_key c r) (show_int c2 @ '':'')"
proof
  assume "startsWith (history_key c r) (show_int c2 @ '':'')"
  then obtain w where "show_int c @ CHR '':'' # r = show_int c2 @ CHR '':'' # w"
    by (auto simp: startsWith_iff_prefix prefix_def history_key_def)
  from split_at_separator[OF show_int_no_colon show_int_no_colon this]
  have "c = c2" by (rule show_int_inj)
  with assms show False by simp
qed

subsection \<open>What the visit of one chat leaves of another's records\<close>

lemma cleanup_other:
  "c2 \<noteq> c \<Longrightarrow>
     notificationHistory (cleanupInactiveRequests d c2 activeIds) (history_key c r)
       = notificationHistory d (history_key c r)"
  by (simp add: cleanupInactiveRequests_def Let_def history_key_other_prefix)

lemma record_other:
  "c2 \<noteq> c \<Longrightarrow>
     notificationHistory (recordNotification d c2 r2 t) (history_key c r)
       = notificationHistory d (history_key c r)"
  using history_key_chat[of c2 r2 c r]
  by (auto simp: recordNotification_def Let_def split: option.splits)

lemma subscriptions_fold_record:
  "subscriptions (fold (\<lambda>r d'. recordNotification d' chatId r t) rs d) = subscriptions d"
  by (induction rs arbitrary: d) (simp_all add: subscriptions_recordNotification)

lemma subscriptions_cleanup:
  "subscriptions (cleanupInactiveRequests d chatId activeIds) = subscriptions d"
  by (simp add: cleanupInactiveRequests_def Let_def)

lemma fold_record_other:
  "c2 \<noteq> c \<Longrightarrow>
     notificationHistory (fold (\<lambda>r d'. recordNotification d' c2 r t) rs d) (history_key c r0)
       = notificationHistory d (history_key c r0)"
  by (induction rs arbitrary: d) (simp_all add: record_other)

lemma notifyChat_other:
  assumes "c2 \<noteq> c"
    and "notifyChat sendMessage wallet claimableIds activeIds c2 (d, now) = ((d2, now2), logged)"
  shows "notificationHistory d2 (history_key c r) = notificationHistory d (history_key c r)
       \<and> subscriptions d2 = subscriptions d"
  using assms
  by (auto simp: notifyChat_def Let_def fold_record_other cleanup_other
      subscriptions_fold_record subscriptions_cleanup split: if_splits prod.splits)

lemma notify_chats_other:
  assumes "c \<notin> set chatIds"
    and "notify_chats sendMessage wallet claimableIds activeIds chatIds (d, now)
           = ((d2, now2), logged)"
  shows "notificationHistory d2 (history_key c r) = notificationHistory d (history_key c r)
       \<and> subscriptions d2 = subscriptions d"
  using assms
proof (induction chatIds arbitrary: d now logged)
  case Nil
  then show ?case by simp
next
  case (Cons c2 cs)
  obtain d1 now1 l1 where n1: "notifyChat sendMessage wallet claimableIds activeIds c2 (d, now)
      = ((d1, now1), l1)"
    by (cases "notifyChat sendMessage wallet claimableIds activeIds c2 (d, now)") auto
  obtain l2 where n2: "notify_chats sendMessage wallet claimableIds activeIds cs (d1, now1)
      = ((d2, now2), l2)"
    using Cons.prems(2) n1 by (auto split: prod.splits)
  from Cons.prems(1) have ne: "c2 \<noteq> c" and ni: "c \<notin> set cs" by auto
  from notifyChat_other[OF ne n1, of r] Cons.IH[OF ni n2] show ?case
    by simp
qed

lemma notify_chats_append:
  "notify_chats sendMessage wallet claimableIds activeIds (xs @ ys) st =
     (case notify_chats sendMessage wallet claimableIds activeIds xs st of
        (st1, l1) \<Rightarrow>
          (case notify_chats sendMessage wallet claimableIds activeIds ys st1 of
             (st2, l2) \<Rightarrow> (st2, l1 @ l2)))"
  by (induction xs arbitrary: st) (simp_all add: case_prod_beta)

text \<open>The object has every key once: so it starts, and so \<open>subscribe\<close> leaves it.\<close>

lemma insert_index_keys:
  "fst ` set (insert_index k v entries) = insert k (fst ` set entries)"
proof (induction entries)
  case Nil
  show ?case by simp
next
  case (Cons e es)
  obtain k' v' where e: "e = (k', v')" by (cases e)
  show ?case
  proof (cases "is_array_index k' \<and> k' < k")
    case True
    then have "insert_index k v (e # es) = (k', v') # insert_index k v es"
      by (simp add: e)
    then have "fst ` set (insert_index k v (e # es))
        = insert k' (fst ` set (insert_index k v es))"
      by simp
    also have "\<dots> = insert k' (insert k (fst ` set es))"
      by (simp only: Cons.IH)
    finally show ?thesis by (simp add: e insert_commute)
  next
    case False
    then have "insert_index k v (e # es) = (k, v) # (k', v') # es"
      by (simp add: e)
    then show ?thesis by (simp add: e)
  qed
qed

lemma insert_index_distinct:
  "distinct (map fst entries) \<Longrightarrow> k \<notin> fst ` set entries
     \<Longrightarrow> distinct (map fst (insert_index k v entries))"
proof (induction entries)
  case Nil
  then show ?case by simp
next
  case (Cons e es)
  obtain k' v' where e: "e = (k', v')" by (cases e)
  from Cons.prems e have d: "distinct (map fst es)" and k'es: "k' \<notin> fst ` set es"
    and kk': "k \<noteq> k'" and kes: "k \<notin> fst ` set es"
    by auto
  show ?case
  proof (cases "is_array_index k' \<and> k' < k")
    case True
    then have i: "insert_index k v (e # es) = (k', v') # insert_index k v es"
      by (simp add: e)
    from k'es kk' have "k' \<notin> fst ` set (insert_index k v es)"
      by (simp add: insert_index_keys)
    with Cons.IH[OF d kes] show ?thesis
      by (simp add: i)
  next
    case False
    then have i: "insert_index k v (e # es) = (k, v) # (k', v') # es"
      by (simp add: e)
    from d k'es kk' kes show ?thesis
      by (simp add: i)
  qed
qed

lemma set_property_distinct:
  "distinct (map fst entries) \<Longrightarrow> distinct (map fst (set_property k v entries))"
  by (auto simp: set_property_def insert_index_distinct distinct_update
      map_of_eq_None_iff)

lemma subscribe_keeps_keys_distinct:
  "distinct (map fst (subscriptions d))
     \<Longrightarrow> distinct (map fst (subscriptions (subscribe d chatId wallet frequency now)))"
  by (simp add: subscribe_def set_property_distinct)

lemma fresh_data_keys_distinct: "distinct (map fst (subscriptions fresh_data))"
  by (simp add: fresh_data_def)

lemma getChatsForWallet_distinct:
  "distinct (map fst (subscriptions d)) \<Longrightarrow> distinct (getChatsForWallet d wallet)"
  by (simp add: getChatsForWallet_def distinct_map_filter)

lemma getChatsForWallet_subscribed:
  assumes "distinct (map fst (subscriptions d))" and "c \<in> set (getChatsForWallet d wallet)"
  shows "\<exists>sub. map_of (subscriptions d) c = Some sub \<and> active sub
           \<and> walletAddress sub = toLowerCase wallet"
proof -
  from assms(2) obtain sub where "(c, sub) \<in> set (subscriptions d)" "active sub"
    "walletAddress sub = toLowerCase wallet"
    by (auto simp: getChatsForWallet_def)
  with assms(1) show ?thesis by auto
qed

text \<open>
  Objects enumerate the integer-like keys first, in ascending order: the chats
  subscribed in the order 100, 42, -5 are visited in the order 42, 100, -5.
\<close>

lemma three_chats_order: "getChatsForWallet three_chats_store ''0xAbC'' = [42, 100, - 5]"
  by (simp add: three_chats_store_def subscribe_def set_property_def is_array_index_def
      fresh_data_def getChatsForWallet_def toLowerCase_def lower_char_def)

section \<open>Properties of the poller\<close>

text \<open>
  C9. The claim is that the delay is never negative and reaches the next quarter-hour
  boundary. At \<open>:15:30.000\<close> the function returns \<open>-30000\<close>: the boundary \<open>:15:00\<close>,
  thirty seconds in the past. At \<open>:07:42.000\<close> it returns the \<open>438000\<close> ms to
  \<open>:15:00\<close>.
\<close>

theorem delay_negative_inside_aligned_minute:
  "calculateDelayToNextAlignedTime \<lparr>getMinutes = 15, getSeconds = 30, getMilliseconds = 0\<rparr> = - 30000
   \<and> calculateDelayToNextAlignedTime \<lparr>getMinutes = 7, getSeconds = 42, getMilliseconds = 0\<rparr> = 438000"
  by (simp add: calculateDelayToNextAlignedTime_def js_rem_def)

text \<open>
  Whenever the minute is a multiple of 15, the delay is minus the time passed since
  that minute began.
\<close>

lemma delay_when_minute_aligned:
  assumes "getMinutes now mod 15 = 0"
  shows "calculateDelayToNextAlignedTime now = - (getSeconds now * 1000 + getMilliseconds now)"
proof -
  let ?m = "getMinutes now"
  from assms obtain q where m: "?m = 15 * q" by (auto simp: mod_eq_0_iff_dvd)
  have "\<lceil>real_of_int ?m / 15\<rceil> = q"
    by (simp add: m)
  then have "\<lceil>real_of_int ?m / 15\<rceil> * 15 - ?m = 0"
    by (simp add: m)
  then show ?thesis
    by (simp add: calculateDelayToNextAlignedTime_def Let_def js_rem_def)
qed

text \<open>
  When the minute is not a multiple of 15, the delay is positive and reaches the next
  boundary.
\<close>

lemma delay_when_minute_unaligned:
  assumes "0 \<le> getMinutes now" "getMinutes now < 60" "getMinutes now mod 15 \<noteq> 0"
    "0 \<le> getSeconds now" "getSeconds now < 60" "0 \<le> getMilliseconds now" "getMilliseconds now < 1000"
  shows "0 < calculateDelayToNextAlignedTime now
     \<and> on_quarter_hour (ms_of_hour now + calculateDelayToNextAlignedTime now)
     \<and> calculateDelayToNextAlignedTime now \<le> 900000"
proof -
  let ?m = "getMinutes now"
  define q where "q = ?m div 15"
  define r where "r = ?m mod 15"
  have m: "?m = 15 * q + r" by (simp add: q_def r_def)
  have r: "1 \<le> r" "r \<le> 14"
    using assms(3) pos_mod_sign[of 15 ?m] pos_mod_bound[of 15 ?m] by (simp_all add: r_def)
  have "\<lceil>real_of_int ?m / real_of_int 15\<rceil> = - (- ?m div 15)"
    by (rule ceiling_divide_eq_div)
  moreover have "- ?m div 15 = - q - 1"
  proof -
    have "- ?m = (- q - 1) * 15 + (15 - r)" by (simp add: m)
    moreover have "((- q - 1) * 15 + (15 - r)) div 15 = (- q - 1) + (15 - r) div 15"
      by (rule div_mult_self3) simp
    moreover have "(15 - r) div 15 = 0" using r by simp
    ultimately show ?thesis by simp
  qed
  ultimately have c: "\<lceil>real_of_int ?m / 15\<rceil> = q + 1"
    by simp
  have d: "(q + 1) * 15 - ?m = 15 - r"
    by (simp add: m)
  have jr: "js_rem (15 - r) 60 = 15 - r"
    using r by (simp add: js_rem_def)
  have e: "calculateDelayToNextAlignedTime now
      = (15 - r) * 60000 - getSeconds now * 1000 - getMilliseconds now"
  proof -
    have "calculateDelayToNextAlignedTime now
        = js_rem (\<lceil>real_of_int ?m / 15\<rceil> * 15 - ?m) 60 * 60 * 1000
            - getSeconds now * 1000 - getMilliseconds now"
      by (simp only: calculateDelayToNextAlignedTime_def Let_def)
    also have "\<dots> = js_rem ((q + 1) * 15 - ?m) 60 * 60 * 1000
            - getSeconds now * 1000 - getMilliseconds now"
      by (simp only: c)
    also have "\<dots> = js_rem (15 - r) 60 * 60 * 1000
            - getSeconds now * 1000 - getMilliseconds now"
      by (simp only: d)
    also have "\<dots> = (15 - r) * 60 * 1000
            - getSeconds now * 1000 - getMilliseconds now"
      by (simp only: jr)
    finally show ?thesis by simp
  qed
  have "ms_of_hour now + calculateDelayToNextAlignedTime now = (q + 1) * 900000"
    unfolding e ms_of_hour_def by (simp add: m algebra_simps)
  then have "on_quarter_hour (ms_of_hour now + calculateDelayToNextAlignedTime now)"
    by (simp add: on_quarter_hour_def)
  moreover have "0 < k * 60000 - s * 1000 - ms \<and> k * 60000 - s * 1000 - ms \<le> 900000"
    if "1 \<le> k" "k \<le> 15" "0 \<le> s" "s < 60" "0 \<le> ms" "ms < 1000" for k s ms :: int
    using that by linarith
  from this[of "15 - r" "getSeconds now" "getMilliseconds now"] r assms(4-7)
  have "0 < calculateDelayToNextAlignedTime now \<and> calculateDelayToNextAlignedTime now \<le> 900000"
    unfolding e by simp
  ultimately show ?thesis by simp
qed

text \<open>
  C8. For a chat with no completion status, the cycles with active counts
  3, 0, 0, 3, 0, every completion message being delivered (so that
  \<open>markCompletionSent\<close> follows every \<open>true\<close>), make \<open>shouldSendCompletion\<close> answer
  \<open>true\<close> exactly twice: at the first cycle of each run of zeros, and not at the
  repeated zero.
\<close>

theorem completion_sent_once_per_episode:
  assumes "completionStatus d chatId = None"
  shows "completion_cycles (delivers latency) chatId wait [3, 0, 0, 3, 0] (d, now)
           = [False, True, False, False, True]"
  using assms
  by (simp add: completion_cycle_def completeChat_def shouldSendCompletion_def
      markCompletionSent_def cleanupInactiveRequests_def delivers_def Let_def)

theorem completion_sent_once_per_episode_witness:
  "completionStatus daily_store 42 = None
   \<and> completion_cycles (delivers 250) 42 900000 [3, 0, 0, 3, 0] (daily_store, 6000)
       = [False, True, False, False, True]"
proof -
  have h: "completionStatus daily_store 42 = None"
    by (simp add: daily_store_def subscribe_def fresh_data_def)
  from completion_sent_once_per_episode[OF h] h show ?thesis by simp
qed

lemma recordNotification_keeps_stamp:
  assumes "\<exists>h. notificationHistory d k = Some h \<and> lastNotifiedAt h = t"
  shows "\<exists>h. notificationHistory (recordNotification d chatId r t) k = Some h \<and> lastNotifiedAt h = t"
  using assms by (auto simp: recordNotification_def Let_def split: option.splits)

lemma fold_record_keeps_stamp:
  assumes "\<exists>h. notificationHistory d k = Some h \<and> lastNotifiedAt h = t"
  shows "\<exists>h. notificationHistory (fold (\<lambda>r d'. recordNotification d' chatId r t) rs d) k = Some h
           \<and> lastNotifiedAt h = t"
  using assms
proof (induction rs arbitrary: d)
  case Nil
  then show ?case by simp
next
  case (Cons x xs)
  from recordNotification_keeps_stamp[OF Cons.prems]
  have "\<exists>h. notificationHistory (recordNotification d chatId x t) k = Some h \<and> lastNotifiedAt h = t" .
  from Cons.IH[OF this] show ?case by simp
qed

lemma fold_record_stamps:
  assumes "r \<in> set rs"
  shows "\<exists>h. notificationHistory (fold (\<lambda>r d'. recordNotification d' chatId r t) rs d)
              (history_key chatId r) = Some h \<and> lastNotifiedAt h = t"
  using assms
proof (induction rs arbitrary: d)
  case Nil
  then show ?case by simp
next
  case (Cons x xs)
  show ?case
  proof (cases "r = x")
    case True
    from fold_record_keeps_stamp[OF history_recordNotification_same[of d chatId x t],
        where rs = xs and chatId = chatId] True
    show ?thesis by simp
  next
    case False
    with Cons.prems have "r \<in> set xs" by simp
    from Cons.IH[OF this] show ?thesis by simp
  qed
qed

lemma notifyChat_outcome_independent:
  assumes "\<forall>c msg t. snd (m2 c msg t) = snd (m1 c msg t)"
  shows "fst (notifyChat m2 wallet claimableIds activeIds chatId st)
       = fst (notifyChat m1 wallet claimableIds activeIds chatId st)"
proof -
  obtain d now where st: "st = (d, now)" by (cases st)
  let ?due = "filter (\<lambda>r. shouldNotify (cleanupInactiveRequests d chatId activeIds) chatId r now) claimableIds"
  from assms have "snd (m2 chatId (WithdrawalReady wallet ?due) now)
      = snd (m1 chatId (WithdrawalReady wallet ?due) now)"
    by blast
  then show ?thesis
    unfolding st
    by (cases "m1 chatId (WithdrawalReady wallet ?due) now";
        cases "m2 chatId (WithdrawalReady wallet ?due) now")
       (auto simp: notifyChat_def sendNotification_def Let_def split: option.splits)
qed

lemma notify_chats_outcome_independent:
  assumes "\<forall>c msg t. snd (m2 c msg t) = snd (m1 c msg t)"
  shows "fst (notify_chats m2 wallet claimableIds activeIds chatIds st)
       = fst (notify_chats m1 wallet claimableIds activeIds chatIds st)"
proof (induction chatIds arbitrary: st)
  case Nil
  show ?case by simp
next
  case (Cons c cs)
  from notifyChat_outcome_independent[OF assms, of wallet claimableIds activeIds c st]
  have e: "fst (notifyChat m2 wallet claimableIds activeIds c st)
      = fst (notifyChat m1 wallet claimableIds activeIds c st)" .
  obtain st1 l1 where n1: "notifyChat m1 wallet claimableIds activeIds c st = (st1, l1)"
    by (cases "notifyChat m1 wallet claimableIds activeIds c st")
  with e obtain l2 where n2: "notifyChat m2 wallet claimableIds activeIds c st = (st1, l2)"
    by (cases "notifyChat m2 wallet claimableIds activeIds c st") simp
  from Cons.IH[of st1] n1 n2 show ?case
    by (simp add: case_prod_beta)
qed

text \<open>
  C10. \<open>notifyChatsForWallet\<close> visits every chat that \<open>getChatsForWallet\<close> lists.
  When it reaches a chat for which some claimable request is due, and \<open>sendMessage\<close>
  throws for the batched notification of that chat, then \<open>sendNotification\<close> still
  resolves, the failure is logged, and \<open>recordNotification\<close> is called for every due
  request id of the chat with the time after the send: in the store that
  \<open>notifyChatsForWallet\<close> leaves, the pair has a record with that time, which
  suppresses \<open>shouldNotify\<close> until \<open>frequencySeconds\<close> have passed since. The
  visits of the other chats do not touch the record, and the store left is the one
  that would be left had every message been delivered.
\<close>

theorem failed_delivery_still_recorded:
  assumes keys: "distinct (map fst (subscriptions d))"
    and chats: "getChatsForWallet d wallet = before @ chatId # after"
    and reached: "fst (notify_chats sendMessage wallet claimableIds activeIds before (d, now))
        = (d1, now1)"
    and due: "requestId \<in> set (requestsToNotify d1 chatId claimableIds activeIds now1)"
    and fails: "sendMessage chatId
        (WithdrawalReady wallet (requestsToNotify d1 chatId claimableIds activeIds now1)) now1
          = (Some err, now2)"
    and run: "notifyChatsForWallet sendMessage wallet claimableIds activeIds (d, now)
        = ((d', now'), logged)"
  shows "fst (sendNotification sendMessage chatId wallet
              (requestsToNotify d1 chatId claimableIds activeIds now1) now1) = Inr ()
    \<and> FailedToSend chatId
          (WithdrawalReady wallet (requestsToNotify d1 chatId claimableIds activeIds now1)) err
        \<in> set logged
    \<and> (\<exists>h sub. map_of (subscriptions d') chatId = Some sub
          \<and> active sub \<and> walletAddress sub = toLowerCase wallet
          \<and> notificationHistory d' (history_key chatId requestId) = Some h
          \<and> lastNotifiedAt h = now2
          \<and> (\<forall>t. shouldNotify d' chatId requestId t \<longleftrightarrow> frequencySeconds sub * 1000 \<le> t - now2))
    \<and> (d', now')
        = fst (notifyChatsForWallet (as_if_delivered sendMessage) wallet claimableIds activeIds
                 (d, now))"
proof -
  let ?due = "requestsToNotify d1 chatId claimableIds activeIds now1"
  let ?c1 = "cleanupInactiveRequests d1 chatId activeIds"
  let ?d2 = "fold (\<lambda>r d'. recordNotification d' chatId r now2) ?due ?c1"
  let ?msg = "FailedToSend chatId (WithdrawalReady wallet ?due) err"
  have a: "fst (sendNotification sendMessage chatId wallet ?due now1) = Inr ()"
    using fails by (simp add: sendNotification_def)
  from due have ne: "?due \<noteq> []" by auto
  obtain l1 where n1: "notify_chats sendMessage wallet claimableIds activeIds before (d, now)
      = ((d1, now1), l1)"
    using reached
    by (cases "notify_chats sendMessage wallet claimableIds activeIds before (d, now)") simp
  have n2: "notifyChat sendMessage wallet claimableIds activeIds chatId (d1, now1)
      = ((?d2, now2), [?msg])"
    using ne fails
    by (simp add: notifyChat_def sendNotification_def Let_def requestsToNotify_def)
  obtain st3 l3 where n3: "notify_chats sendMessage wallet claimableIds activeIds after (?d2, now2)
      = (st3, l3)"
    by (cases "notify_chats sendMessage wallet claimableIds activeIds after (?d2, now2)")
  have "notify_chats sendMessage wallet claimableIds activeIds (before @ chatId # after) (d, now)
      = (st3, l1 @ ?msg # l3)"
    by (simp add: notify_chats_append n1 n2 n3)
  with run chats have st3: "st3 = (d', now')" and logged: "logged = l1 @ ?msg # l3"
    by (simp_all add: notifyChatsForWallet_def)
  from logged have b: "?msg \<in> set logged" by simp
  from getChatsForWallet_distinct[OF keys, of wallet] chats
  have nb: "chatId \<notin> set before" and na: "chatId \<notin> set after"
    by auto
  from notify_chats_other[OF nb n1] have s1: "subscriptions d1 = subscriptions d"
    by simp
  from notify_chats_other[OF na n3[unfolded st3], of requestId]
  have h3: "notificationHistory d' (history_key chatId requestId)
        = notificationHistory ?d2 (history_key chatId requestId)"
    and s3: "subscriptions d' = subscriptions ?d2"
    by simp_all
  from s3 s1 have subs: "subscriptions d' = subscriptions d"
    by (simp add: subscriptions_fold_record subscriptions_cleanup)
  from chats have "chatId \<in> set (getChatsForWallet d wallet)" by simp
  from getChatsForWallet_subscribed[OF keys this] subs
  obtain sub where sub: "map_of (subscriptions d') chatId = Some sub" "active sub"
    "walletAddress sub = toLowerCase wallet"
    by auto
  from fold_record_stamps[OF due, of chatId now2 ?c1] h3
  obtain h where h: "notificationHistory d' (history_key chatId requestId) = Some h"
    "lastNotifiedAt h = now2"
    by auto
  have win: "\<forall>t. shouldNotify d' chatId requestId t \<longleftrightarrow> frequencySeconds sub * 1000 \<le> t - now2"
    using h sub by (simp add: shouldNotify_def)
  have c: "\<exists>h sub. map_of (subscriptions d') chatId = Some sub
          \<and> active sub \<and> walletAddress sub = toLowerCase wallet
          \<and> notificationHistory d' (history_key chatId requestId) = Some h
          \<and> lastNotifiedAt h = now2
          \<and> (\<forall>t. shouldNotify d' chatId requestId t \<longleftrightarrow> frequencySeconds sub * 1000 \<le> t - now2)"
    using sub h win by blast
  have "\<forall>c msg t. snd (sendMessage c msg t) = snd (as_if_delivered sendMessage c msg t)"
    by (simp add: as_if_delivered_def)
  from notify_chats_outcome_independent[OF this, of wallet claimableIds activeIds
      "getChatsForWallet d wallet" "(d, now)"] run
  have e: "(d', now')
        = fst (notifyChatsForWallet (as_if_delivered sendMessage) wallet claimableIds activeIds
                 (d, now))"
    by (simp add: notifyChatsForWallet_def)
  from a b c e show ?thesis by blast
qed


lemma notify_chats_subscriptions:
  "subscriptions (fst (fst (notify_chats sendMessage wallet claimableIds activeIds chatIds st)))
     = subscriptions (fst st)"
proof (induction chatIds arbitrary: st)
  case Nil
  show ?case by simp
next
  case (Cons c cs)
  obtain d now where st: "st = (d, now)" by (cases st)
  obtain d1 now1 l1 where n1: "notifyChat sendMessage wallet claimableIds activeIds c (d, now)
      = ((d1, now1), l1)"
    by (cases "notifyChat sendMessage wallet claimableIds activeIds c (d, now)") auto
  from notifyChat_other[OF _ n1, of "c + 1"] have "subscriptions d1 = subscriptions d"
    by simp
  with Cons.IH[of "(d1, now1)"] n1 st show ?case
    by (simp add: case_prod_beta)
qed

lemma three_chats_subscriptions:
  "subscriptions three_chats_store
     = [(42, \<lparr>walletAddress = ''0xabc'', frequencySeconds = 21600, active = True,
               createdAt = 5001, updatedAt = 5001\<rparr>),
        (100, \<lparr>walletAddress = ''0xabc'', frequencySeconds = 86400, active = True,
                createdAt = 5000, updatedAt = 5000\<rparr>),
        (- 5, \<lparr>walletAddress = ''0xabc'', frequencySeconds = 43200, active = True,
                createdAt = 5002, updatedAt = 5002\<rparr>)]"
  by (simp add: three_chats_store_def subscribe_def set_property_def is_array_index_def
      fresh_data_def toLowerCase_def lower_char_def)

lemma three_chats_history: "notificationHistory three_chats_store = Map.empty"
  by (simp add: three_chats_store_def subscribe_def fresh_data_def)

lemma three_chats_first_visit:
  "snd (fst (notify_chats (refuses 250) ''0xAbC'' [''7''] [''7'', ''8''] [42]
               (three_chats_store, 6000))) = 6250"
  by (simp add: notifyChat_def sendNotification_def refuses_def shouldNotify_def
      cleanupInactiveRequests_def three_chats_subscriptions three_chats_history Let_def)

lemma three_chats_second_due:
  "requestsToNotify
     (fst (fst (notify_chats (refuses 250) ''0xAbC'' [''7''] [''7'', ''8''] [42]
                  (three_chats_store, 6000))))
     100 [''7''] [''7'', ''8''] 6250 = [''7'']"
proof -
  let ?X = "notify_chats (refuses 250) ''0xAbC'' [''7''] [''7'', ''8''] [42]
      (three_chats_store, 6000)"
  have x: "?X = ((fst (fst ?X), snd (fst ?X)), snd ?X)" by simp
  have "(100::int) \<notin> set [42]" by simp
  from notify_chats_other[OF this x, of "''7''"]
  have h: "notificationHistory (fst (fst ?X)) (history_key 100 ''7'') = None"
    by (simp add: three_chats_history)
  have s: "map_of (subscriptions (fst (fst ?X))) 100
      = Some \<lparr>walletAddress = ''0xabc'', frequencySeconds = 86400, active = True,
                createdAt = 5000, updatedAt = 5000\<rparr>"
    by (simp only: notify_chats_subscriptions fst_conv three_chats_subscriptions) simp
  have "notificationHistory (cleanupInactiveRequests (fst (fst ?X)) 100 [''7'', ''8''])
      (history_key 100 ''7'') = None"
    using h by (simp add: cleanupInactiveRequests_def Let_def)
  with s show ?thesis
    by (simp add: requestsToNotify_def shouldNotify_def subscriptions_cleanup)
qed

theorem failed_delivery_still_recorded_witness:
  "distinct (map fst (subscriptions three_chats_store))
   \<and> getChatsForWallet three_chats_store ''0xAbC'' = [42] @ 100 # [- 5]
   \<and> snd (fst (notify_chats (refuses 250) ''0xAbC'' [''7''] [''7'', ''8''] [42]
                 (three_chats_store, 6000))) = 6250
   \<and> requestsToNotify
       (fst (fst (notify_chats (refuses 250) ''0xAbC'' [''7''] [''7'', ''8''] [42]
                    (three_chats_store, 6000))))
       100 [''7''] [''7'', ''8''] 6250 = [''7'']
   \<and> refuses 250 100 (WithdrawalReady ''0xAbC'' [''7'']) 6250
       = (Some (Error (Some ''Forbidden: bot was blocked by the user'')), 6500)
   \<and> FailedToSend 100 (WithdrawalReady ''0xAbC'' [''7''])
         (Error (Some ''Forbidden: bot was blocked by the user''))
       \<in> set (snd (notifyChatsForWallet (refuses 250) ''0xAbC'' [''7''] [''7'', ''8'']
                      (three_chats_store, 6000)))
   \<and> (\<exists>h. notificationHistory
             (fst (fst (notifyChatsForWallet (refuses 250) ''0xAbC'' [''7''] [''7'', ''8'']
                          (three_chats_store, 6000))))
             (history_key 100 ''7'') = Some h
          \<and> lastNotifiedAt h = 6500)
   \<and> \<not> shouldNotify
           (fst (fst (notifyChatsForWallet (refuses 250) ''0xAbC'' [''7''] [''7'', ''8'']
                        (three_chats_store, 6000))))
           100 ''7'' 86406499
   \<and> shouldNotify
         (fst (fst (notifyChatsForWallet (refuses 250) ''0xAbC'' [''7''] [''7'', ''8'']
                      (three_chats_store, 6000))))
         100 ''7'' 86406500"
proof -
  let ?X = "notify_chats (refuses 250) ''0xAbC'' [''7''] [''7'', ''8''] [42]
      (three_chats_store, 6000)"
  let ?Y = "notifyChatsForWallet (refuses 250) ''0xAbC'' [''7''] [''7'', ''8'']
      (three_chats_store, 6000)"
  let ?err = "Error (Some ''Forbidden: bot was blocked by the user'')"
  have keys: "distinct (map fst (subscriptions three_chats_store))"
    by (simp add: three_chats_subscriptions)
  have chats: "getChatsForWallet three_chats_store ''0xAbC'' = [42] @ 100 # [- 5]"
    by (simp add: three_chats_order)
  have reached: "fst ?X = (fst (fst ?X), 6250)"
    using three_chats_first_visit by (simp add: prod_eq_iff)
  have due: "''7'' \<in> set (requestsToNotify (fst (fst ?X)) 100 [''7''] [''7'', ''8''] 6250)"
    unfolding three_chats_second_due by simp
  have f: "refuses 250 100 (WithdrawalReady ''0xAbC'' [''7'']) 6250 = (Some ?err, 6500)"
    by (simp add: refuses_def)
  have fails: "refuses 250 100 (WithdrawalReady ''0xAbC''
        (requestsToNotify (fst (fst ?X)) 100 [''7''] [''7'', ''8''] 6250)) 6250
      = (Some ?err, 6500)"
    by (simp add: refuses_def)
  have run: "?Y = ((fst (fst ?Y), snd (fst ?Y)), snd ?Y)" by simp
  note t = failed_delivery_still_recorded[where sendMessage = "refuses 250"
      and d = three_chats_store and wallet = "''0xAbC''" and before = "[42]" and chatId = 100
      and after = "[- 5]" and claimableIds = "[''7'']" and activeIds = "[''7'', ''8'']"
      and now = 6000 and ?d1.0 = "fst (fst ?X)" and ?now1.0 = 6250 and requestId = "''7''"
      and err = ?err and ?now2.0 = 6500 and d' = "fst (fst ?Y)" and now' = "snd (fst ?Y)"
      and logged = "snd ?Y", OF keys chats reached due fails run]
  from t have logged: "FailedToSend 100 (WithdrawalReady ''0xAbC'' [''7'']) ?err \<in> set (snd ?Y)"
    unfolding three_chats_second_due by (elim conjE)
  from t obtain h sub where sub: "map_of (subscriptions (fst (fst ?Y))) 100 = Some sub"
    and h: "notificationHistory (fst (fst ?Y)) (history_key 100 ''7'') = Some h"
      "lastNotifiedAt h = 6500"
    and win: "\<forall>t. shouldNotify (fst (fst ?Y)) 100 ''7'' t
        \<longleftrightarrow> frequencySeconds sub * 1000 \<le> t - 6500"
    by blast
  from h have rec: "\<exists>h. notificationHistory (fst (fst ?Y)) (history_key 100 ''7'') = Some h
      \<and> lastNotifiedAt h = 6500"
    by blast
  have "subscriptions (fst (fst ?Y)) = subscriptions three_chats_store"
    by (simp only: notifyChatsForWallet_def notify_chats_subscriptions fst_conv)
  with sub have "frequencySeconds sub = 86400"
    by (auto simp: three_chats_subscriptions)
  with win have w1: "\<not> shouldNotify (fst (fst ?Y)) 100 ''7'' 86406499"
    and w2: "shouldNotify (fst (fst ?Y)) 100 ''7'' 86406500"
    by simp_all
  show ?thesis
    using keys chats three_chats_first_visit three_chats_second_due f logged rec w1 w2
    by - (intro conjI, assumption+)
qed

end
